theory Spec2Isabelle
  imports Main
begin

section \<open>Strings\<close>

text \<open>
  A JavaScript string is a sequence of UTF-16 code units. A code unit is modelled as a
  natural number and a string as the list of its code units, so that \<open>length\<close> is the
  \<^verbatim>\<open>.length\<close> of the source and an index is an index into the list. \<open>lit\<close> turns a
  literal of the theory into such a string.

  The code units that the definitions name by their numbers: 34 is the double quote, 92
  the backslash, 47 the slash, 123 and 125 the braces, 91 and 93 the brackets, 58 the
  colon, 44 the comma, 45 and 43 the signs, 46 the point, 48 to 57 the digits, 101 and 69
  the letter e, 117 the letter u, 95 the underscore, 96 the backquote, and 9, 10, 13 and
  32 the tab, the line feed, the carriage return and the space.
\<close>

type_synonym code_unit = nat
type_synonym jsstring = "code_unit list"

definition lit :: "string \<Rightarrow> jsstring" where
  "lit s = map of_char s"

section \<open>Data model (src/types.ts, lines 1 to 83)\<close>

datatype ShapeType = Box | Sphere | Cylinder | Cone

datatype ShapeCategory = Structure | Electrical | Furniture | Landscape

text \<open>
  The interface \<^verbatim>\<open>Shape\<close>. An optional field is an \<open>option\<close>. The editor never computes
  with the numbers of a shape in the operations modelled here, so their type is the
  parameter \<open>'n\<close>. The field \<^verbatim>\<open>id\<close> is named \<open>id'\<close>, since \<open>id\<close> is the identity
  function of HOL.
\<close>

record 'n Shape =
  id' :: jsstring
  type :: ShapeType
  category :: "ShapeCategory option"
  groupId :: "jsstring option"
  position :: "'n \<times> 'n \<times> 'n"
  rotation :: "'n \<times> 'n \<times> 'n"
  scale :: "'n \<times> 'n \<times> 'n"
  color :: jsstring
  args :: "'n list option"
  name :: "jsstring option"
  roughness :: "'n option"
  metalness :: "'n option"
  opacity :: "'n option"
  visible :: "bool option"
  emissive :: "jsstring option"
  emissiveIntensity :: "'n option"

record MaterialInfo =
  mi_color :: jsstring
  mi_name :: jsstring
  mi_description :: "jsstring option"

record 'n GeminiResponse =
  "text" :: jsstring
  designUpdate :: "'n Shape list option"
  isExplanation :: "bool option"
  isReview :: "bool option"
  materialLegend :: "MaterialInfo list option"

section \<open>Scene state and history (the component \<^verbatim>\<open>App\<close>, in src/types.ts)\<close>

text \<open>
  The three state cells of \<^verbatim>\<open>App\<close> that hold the scene and its history (lines 184,
  235 and 236; the handlers are at lines 322 to 345, 552 to 555 and 590 to 611):
  \<^verbatim>\<open>shapes\<close>, \<^verbatim>\<open>pastStates\<close> and \<^verbatim>\<open>futureStates\<close>. Every handler below is one
  event: it takes the cells as they are when the event starts and returns them as the
  queued setters leave them. The other cells of \<^verbatim>\<open>App\<close> (chat messages, prompt history,
  material legend, modal, loading flag) are neither read nor written by the scene
  operations and are not part of the record.
\<close>

record 'n Scene =
  shapes :: "'n Shape list"
  pastStates :: "'n Shape list list"
  futureStates :: "'n Shape list list"

text \<open>
  \<^verbatim>\<open>pushToHistory\<close> is \<^verbatim>\<open>setPastStates(prev => [...prev, shapes]); setFutureStates([])\<close>.
  The updater receives the stack as it is now, but the variable \<^verbatim>\<open>shapes\<close> is the one of
  the closure: the list of shapes of the render in which the calling handler was created.
  That list is the argument \<open>captured\<close>. The handlers below that an event calls, once,
  belong to the latest render (the key listener of lines 347 to 362 is registered again
  whenever one of the three cells changes), so that they pass the current list; the
  continuation of an \<^verbatim>\<open>async\<close> handler after its \<^verbatim>\<open>await\<close> still has the list of the
  render in which the handler was called.
\<close>

definition pushToHistory :: "'n Shape list \<Rightarrow> 'n Scene \<Rightarrow> 'n Scene" where
  "pushToHistory captured st = st\<lparr>pastStates := pastStates st @ [captured], futureStates := []\<rparr>"

text \<open>
  \<^verbatim>\<open>undo\<close> pops the last entry of \<^verbatim>\<open>pastStates\<close>; the test \<^verbatim>\<open>if (previousState)\<close>
  always succeeds, since the popped value is an array.
\<close>

definition undo :: "'n Scene \<Rightarrow> 'n Scene" where
  "undo st =
     (if length (pastStates st) = 0 then st
      else let newPast = butlast (pastStates st);
               previousState = last (pastStates st)
           in st\<lparr>futureStates := shapes st # futureStates st,
                 pastStates := newPast,
                 shapes := previousState\<rparr>)"

definition redo :: "'n Scene \<Rightarrow> 'n Scene" where
  "redo st =
     (if length (futureStates st) = 0 then st
      else let newFuture = tl (futureStates st);
               nextState = hd (futureStates st)
           in st\<lparr>pastStates := pastStates st @ [shapes st],
                 futureStates := newFuture,
                 shapes := nextState\<rparr>)"

text \<open>
  The part of \<^verbatim>\<open>handleSendMessage\<close> that follows the awaited call, on the scene:
  \<^verbatim>\<open>if (response.designUpdate) { pushToHistory(); setShapes(response.designUpdate); }\<close>.
  An array is truthy whatever its length, so the test asks whether the field is there.
  These lines run when the response arrives, on the scene \<open>st\<close> as it is then, in the
  closure of the call: \<open>captured\<close> is the list of shapes of the render in which the
  message was sent (the list that line 542 hands to \<^verbatim>\<open>sendMessageToGemini\<close>). It differs
  from \<open>shapes st\<close> when the scene was edited while the request was in flight, which
  nothing prevents: the loading flag only disables the chat input.
\<close>

definition handleSendMessage ::
  "'n Shape list \<Rightarrow> 'n GeminiResponse \<Rightarrow> 'n Scene \<Rightarrow> 'n Scene" where
  "handleSendMessage captured response st =
     (case designUpdate response of
        Some newShapes \<Rightarrow> (pushToHistory captured st)\<lparr>shapes := newShapes\<rparr>
      | None \<Rightarrow> st)"

definition handleShapeUpdate :: "'n Shape \<Rightarrow> 'n Scene \<Rightarrow> 'n Scene" where
  "handleShapeUpdate updatedShape st =
     (pushToHistory (shapes st) st)\<lparr>shapes :=
        map (\<lambda>s. if id' s = id' updatedShape then updatedShape else s) (shapes st)\<rparr>"

text \<open>
  \<^verbatim>\<open>new Map(updatedShapes.map(s => [s.id, s]))\<close> inserts the entries in order, so a later
  patch with the same id replaces an earlier one.
\<close>

definition updateMap :: "'n Shape list \<Rightarrow> (jsstring \<rightharpoonup> 'n Shape)" where
  "updateMap updatedShapes = fold (\<lambda>s m. m(id' s \<mapsto> s)) updatedShapes Map.empty"

definition handleShapesUpdate :: "'n Shape list \<Rightarrow> 'n Scene \<Rightarrow> 'n Scene" where
  "handleShapesUpdate updatedShapes st =
     (pushToHistory (shapes st) st)\<lparr>shapes :=
        map (\<lambda>s. case updateMap updatedShapes (id' s) of Some u \<Rightarrow> u | None \<Rightarrow> s)
            (shapes st)\<rparr>"

definition handleDeleteShapes :: "jsstring list \<Rightarrow> 'n Scene \<Rightarrow> 'n Scene" where
  "handleDeleteShapes idsToDelete st =
     (pushToHistory (shapes st) st)\<lparr>shapes := filter (\<lambda>s. id' s \<notin> set idsToDelete) (shapes st)\<rparr>"

definition handleAddShape :: "'n Shape \<Rightarrow> 'n Scene \<Rightarrow> 'n Scene" where
  "handleAddShape newShape st =
     (pushToHistory (shapes st) st)\<lparr>shapes := shapes st @ [newShape]\<rparr>"

section \<open>Selection and grouping (the component \<^verbatim>\<open>Viewer3D\<close>, in src/components/UserDashboard.tsx)\<close>

datatype ToolMode = Select | Measure

text \<open>
  The cells of \<^verbatim>\<open>Viewer3D\<close> that \<^verbatim>\<open>handleShapeSelect\<close> (lines 733 to 750) reads and
  writes; \<^verbatim>\<open>handleGroup\<close> and \<^verbatim>\<open>handleUngroup\<close> are at lines 760 to 771. A pointer event
  carries the shift key and the point that was hit; the type of points is the parameter
  \<open>'p\<close>.
\<close>

record 'p Viewer =
  toolMode :: ToolMode
  selectedIds :: "jsstring list"
  measurePoints :: "'p list"

record 'p PointerEvent =
  shiftKey :: bool
  point :: 'p

text \<open>
  \<^verbatim>\<open>if (shape.groupId)\<close> is a truthiness test: the field is absent, or it is the empty
  string, exactly when the test fails.
\<close>

definition has_groupId :: "'n Shape \<Rightarrow> bool" where
  "has_groupId shape = (case groupId shape of None \<Rightarrow> False | Some g \<Rightarrow> g \<noteq> [])"

definition handleShapeSelect ::
  "'n Shape list \<Rightarrow> 'p PointerEvent \<Rightarrow> 'n Shape \<Rightarrow> 'p Viewer \<Rightarrow> 'p Viewer" where
  "handleShapeSelect shps e shape v =
     (if toolMode v = Measure then
        v\<lparr>measurePoints :=
            (if length (measurePoints v) \<ge> 2 then [point e] else measurePoints v @ [point e])\<rparr>
      else if shiftKey e then
        v\<lparr>selectedIds :=
            (if id' shape \<in> set (selectedIds v)
             then filter (\<lambda>i. i \<noteq> id' shape) (selectedIds v)
             else selectedIds v @ [id' shape])\<rparr>
      else if has_groupId shape then
        v\<lparr>selectedIds := map id' (filter (\<lambda>s. groupId s = groupId shape) shps)\<rparr>
      else
        v\<lparr>selectedIds := [id' shape]\<rparr>)"

text \<open>
  \<^verbatim>\<open>handleGroup\<close> and \<^verbatim>\<open>handleUngroup\<close> hand their patches to \<^verbatim>\<open>onShapesUpdate\<close>,
  which is \<^verbatim>\<open>handleShapesUpdate\<close>. The first argument of \<open>handleGroup\<close> is the decimal
  text of \<^verbatim>\<open>Date.now()\<close>.
\<close>

definition handleGroup :: "jsstring \<Rightarrow> jsstring list \<Rightarrow> 'n Scene \<Rightarrow> 'n Scene" where
  "handleGroup now sel st =
     (if length sel < 2 then st
      else let newGroupId = lit ''group-'' @ now;
               updated = map (\<lambda>s. s\<lparr>groupId := Some newGroupId\<rparr>)
                             (filter (\<lambda>s. id' s \<in> set sel) (shapes st))
           in handleShapesUpdate updated st)"

definition handleUngroup :: "jsstring list \<Rightarrow> 'n Scene \<Rightarrow> 'n Scene" where
  "handleUngroup sel st =
     (if length sel = 0 then st
      else let updated = map (\<lambda>s. s\<lparr>groupId := None\<rparr>)
                             (filter (\<lambda>s. id' s \<in> set sel) (shapes st))
           in handleShapesUpdate updated st)"

section \<open>Sequences of scene operations\<close>

text \<open>
  One constructor for each handler that changes the scene, with the arguments the handler
  receives; \<open>ReplaceShapes captured response\<close> is the arrival of the response to a
  message that was sent when the shapes were \<open>captured\<close>.
\<close>

datatype 'n operation =
    AddShape "'n Shape"
  | DeleteShapes "jsstring list"
  | UpdateShape "'n Shape"
  | UpdateShapes "'n Shape list"
  | ReplaceShapes "'n Shape list" "'n GeminiResponse"
  | Group jsstring "jsstring list"
  | Ungroup "jsstring list"

fun perform :: "'n operation \<Rightarrow> 'n Scene \<Rightarrow> 'n Scene" where
  "perform (AddShape s) st = handleAddShape s st"
| "perform (DeleteShapes ids) st = handleDeleteShapes ids st"
| "perform (UpdateShape s) st = handleShapeUpdate s st"
| "perform (UpdateShapes ps) st = handleShapesUpdate ps st"
| "perform (ReplaceShapes captured r) st = handleSendMessage captured r st"
| "perform (Group now sel) st = handleGroup now sel st"
| "perform (Ungroup sel) st = handleUngroup sel st"

text \<open>
  An operation takes effect unless its handler returns at its first line: grouping needs
  two selected ids, ungrouping one, and a response replaces the shapes only when it has a
  \<^verbatim>\<open>designUpdate\<close>.
\<close>

fun takes_effect :: "'n operation \<Rightarrow> bool" where
  "takes_effect (ReplaceShapes captured r) = (designUpdate r \<noteq> None)"
| "takes_effect (Group now sel) = (length sel \<ge> 2)"
| "takes_effect (Ungroup sel) = (length sel \<ge> 1)"
| "takes_effect _ = True"

definition perform_all :: "'n operation list \<Rightarrow> 'n Scene \<Rightarrow> 'n Scene" where
  "perform_all ops st = fold perform ops st"

section \<open>Example data\<close>

abbreviation example_shape :: "jsstring \<Rightarrow> jsstring option \<Rightarrow> nat Shape" where
  "example_shape i g \<equiv>
     \<lparr>id' = i, type = Box, category = None, groupId = g,
      position = (0, 0, 0), rotation = (0, 0, 0), scale = (1, 1, 1),
      color = lit ''#ffffff'', args = None, name = None, roughness = None,
      metalness = None, opacity = None, visible = None, emissive = None,
      emissiveIntensity = None\<rparr>"

abbreviation example_scene :: "nat Shape list \<Rightarrow> nat Scene" where
  "example_scene ss \<equiv> \<lparr>shapes = ss, pastStates = [], futureStates = []\<rparr>"

abbreviation example_response :: "nat Shape list option \<Rightarrow> nat GeminiResponse" where
  "example_response update \<equiv>
     \<lparr>text = lit ''ok'', designUpdate = update, isExplanation = None, isReview = None,
      materialLegend = None\<rparr>"

section \<open>JSON values and \<^verbatim>\<open>JSON.parse\<close>\<close>

text \<open>
  \<^verbatim>\<open>JSON.parse\<close> is a built-in of the language. It is modelled after the JSON
  grammar of ECMA-404, as ECMAScript prescribes: a tokenizer over the code units and a
  pushdown recogniser over the tokens that builds the value. A \<^verbatim>\<open>SyntaxError\<close> is the
  result \<open>None\<close>. A number is kept as the text of its literal, which determines the
  double it denotes. An object is the list of its members in the order in which their keys
  first occur, each key once, a repeated key keeping its last value; nothing in the code
  modelled here depends on the order of the members.
\<close>

datatype json =
    JNull
  | JBool bool
  | JNum jsstring
  | JStr jsstring
  | JArr "json list"
  | JObj "(jsstring \<times> json) list"

datatype token =
    LBrace | RBrace | LBracket | RBracket | Colon | Comma
  | TString jsstring | TNumber jsstring | TTrue | TFalse | TNull

definition is_json_ws :: "code_unit \<Rightarrow> bool" where
  "is_json_ws c = (c = 32 \<or> c = 9 \<or> c = 10 \<or> c = 13)"

definition is_digit :: "code_unit \<Rightarrow> bool" where
  "is_digit c = (48 \<le> c \<and> c \<le> 57)"

definition hex_value :: "code_unit \<Rightarrow> nat option" where
  "hex_value c =
     (if 48 \<le> c \<and> c \<le> 57 then Some (c - 48)
      else if 97 \<le> c \<and> c \<le> 102 then Some (c - 87)
      else if 65 \<le> c \<and> c \<le> 70 then Some (c - 55)
      else None)"

definition hex4 :: "code_unit \<Rightarrow> code_unit \<Rightarrow> code_unit \<Rightarrow> code_unit \<Rightarrow> code_unit option" where
  "hex4 a b c d =
     (case (hex_value a, hex_value b, hex_value c, hex_value d) of
        (Some x, Some y, Some z, Some w) \<Rightarrow> Some (((x * 16 + y) * 16 + z) * 16 + w)
      | _ \<Rightarrow> None)"

definition unescape :: "code_unit \<Rightarrow> code_unit option" where
  "unescape e =
     (if e = 34 then Some 34
      else if e = 92 then Some 92
      else if e = 47 then Some 47
      else if e = 98 then Some 8
      else if e = 102 then Some 12
      else if e = 110 then Some 10
      else if e = 114 then Some 13
      else if e = 116 then Some 9
      else None)"

text \<open>
  The characters of a string literal after its opening quote: the decoded string and the
  text after the closing quote. \<open>scanned u res\<close> puts the code unit \<open>u\<close> in front of
  the string of a successful result.
\<close>

definition scanned :: "'a \<Rightarrow> ('a list \<times> 'b) option \<Rightarrow> ('a list \<times> 'b) option" where
  "scanned u res = (case res of None \<Rightarrow> None | Some (s, rest) \<Rightarrow> Some (u # s, rest))"

fun scan_string :: "jsstring \<Rightarrow> (jsstring \<times> jsstring) option" where
  "scan_string [] = None"
| "scan_string (c # cs) =
     (if c = 34 then Some ([], cs)
      else if c = 92 then
        (case cs of
           [] \<Rightarrow> None
         | e # r \<Rightarrow>
             if e = 117 then
               (case r of
                  h1 # h2 # h3 # h4 # r' \<Rightarrow>
                    (case hex4 h1 h2 h3 h4 of
                       None \<Rightarrow> None
                     | Some u \<Rightarrow> scanned u (scan_string r'))
                | _ \<Rightarrow> None)
             else
               (case unescape e of
                  None \<Rightarrow> None
                | Some u \<Rightarrow> scanned u (scan_string r)))
      else if c < 32 then None
      else scanned c (scan_string cs))"

text \<open>
  A number literal: an optional minus, an integer part without leading zeros, an
  optional fraction and an optional exponent.
\<close>

definition scan_digits :: "jsstring \<Rightarrow> (jsstring \<times> jsstring) option" where
  "scan_digits s =
     (if takeWhile is_digit s = [] then None
      else Some (takeWhile is_digit s, dropWhile is_digit s))"

definition scan_int :: "jsstring \<Rightarrow> (jsstring \<times> jsstring) option" where
  "scan_int s =
     (case s of
        [] \<Rightarrow> None
      | c # cs \<Rightarrow> if c = 48 then Some ([48], cs) else scan_digits s)"

definition scan_frac :: "jsstring \<Rightarrow> (jsstring \<times> jsstring) option" where
  "scan_frac s =
     (case s of
        c # cs \<Rightarrow>
          if c = 46 then
            (case scan_digits cs of None \<Rightarrow> None | Some (ds, r) \<Rightarrow> Some (46 # ds, r))
          else Some ([], s)
      | [] \<Rightarrow> Some ([], s))"

definition scan_exp :: "jsstring \<Rightarrow> (jsstring \<times> jsstring) option" where
  "scan_exp s =
     (case s of
        c # cs \<Rightarrow>
          if c = 101 \<or> c = 69 then
            (case cs of
               d # ds \<Rightarrow>
                 if d = 43 \<or> d = 45 then
                   (case scan_digits ds of None \<Rightarrow> None | Some (xs, r) \<Rightarrow> Some (c # d # xs, r))
                 else
                   (case scan_digits cs of None \<Rightarrow> None | Some (xs, r) \<Rightarrow> Some (c # xs, r))
             | [] \<Rightarrow> None)
          else Some ([], s)
      | [] \<Rightarrow> Some ([], s))"

definition scan_number :: "jsstring \<Rightarrow> (jsstring \<times> jsstring) option" where
  "scan_number s =
     (let (sign, s1) = (case s of c # cs \<Rightarrow> if c = 45 then ([45], cs) else ([], s) | [] \<Rightarrow> ([], s))
      in case scan_int s1 of
           None \<Rightarrow> None
         | Some (i, s2) \<Rightarrow>
             (case scan_frac s2 of
                None \<Rightarrow> None
              | Some (f, s3) \<Rightarrow>
                  (case scan_exp s3 of
                     None \<Rightarrow> None
                   | Some (e, s4) \<Rightarrow> Some (sign @ i @ f @ e, s4))))"

fun starts_with :: "jsstring \<Rightarrow> jsstring \<Rightarrow> bool" where
  "starts_with s [] = True"
| "starts_with [] (p # ps) = False"
| "starts_with (c # cs) (p # ps) = (c = p \<and> starts_with cs ps)"

text \<open>
  The tokenizer. It ends because each scanner leaves less text than it was given.
\<close>

function tokenize :: "jsstring \<Rightarrow> token list option" where
  "tokenize [] = Some []"
| "tokenize (c # cs) =
     (if is_json_ws c then tokenize cs
      else if c = 123 then map_option ((#) LBrace) (tokenize cs)
      else if c = 125 then map_option ((#) RBrace) (tokenize cs)
      else if c = 91 then map_option ((#) LBracket) (tokenize cs)
      else if c = 93 then map_option ((#) RBracket) (tokenize cs)
      else if c = 58 then map_option ((#) Colon) (tokenize cs)
      else if c = 44 then map_option ((#) Comma) (tokenize cs)
      else if c = 34 then
        (case scan_string cs of
           None \<Rightarrow> None
         | Some (s, r) \<Rightarrow> map_option ((#) (TString s)) (tokenize r))
      else if c = 45 \<or> is_digit c then
        (case scan_number (c # cs) of
           None \<Rightarrow> None
         | Some (n, r) \<Rightarrow> map_option ((#) (TNumber n)) (tokenize r))
      else if starts_with (c # cs) (lit ''true'') then
        map_option ((#) TTrue) (tokenize (drop 3 cs))
      else if starts_with (c # cs) (lit ''false'') then
        map_option ((#) TFalse) (tokenize (drop 4 cs))
      else if starts_with (c # cs) (lit ''null'') then
        map_option ((#) TNull) (tokenize (drop 3 cs))
      else None)"
  by pat_completeness auto
termination
proof -
  have scanned: "\<exists>s'. res = Some (s', r)" if "scanned u res = Some (s, r)"
    for u :: code_unit and res :: "(jsstring \<times> jsstring) option" and s r
    using that by (auto simp: scanned_def split: option.splits)
  have str: "length r < length cs" if "scan_string cs = Some (s, r)" for cs s r
    using that
  proof (induction cs arbitrary: s r rule: scan_string.induct)
    case 1
    then show ?case by simp
  next
    case (2 c cs)
    then show ?case
      by (fastforce split: if_splits list.splits option.splits dest!: scanned)
  qed
  have digits: "length r < length s" if "scan_digits s = Some (d, r)" for s d r
    using that
    by (cases s) (auto simp: scan_digits_def split: if_splits
        intro: le_imp_less_Suc length_dropWhile_le)
  have num: "length r < length s" if "scan_number s = Some (n, r)" for s n r
    using that
    by (auto simp: scan_number_def scan_int_def scan_frac_def scan_exp_def Let_def
        split: list.splits if_splits option.splits prod.splits dest!: digits)
  show ?thesis
    by (relation "measure length") (auto dest: str num intro: less_SucI)
qed

text \<open>
  Reading a property of an object, and writing one: an existing key keeps its place.
\<close>

fun get_member :: "jsstring \<Rightarrow> (jsstring \<times> json) list \<Rightarrow> json option" where
  "get_member k [] = None"
| "get_member k ((k', v) # ms) = (if k' = k then Some v else get_member k ms)"

fun set_member :: "jsstring \<Rightarrow> json \<Rightarrow> (jsstring \<times> json) list \<Rightarrow> (jsstring \<times> json) list" where
  "set_member k v [] = [(k, v)]"
| "set_member k v ((k', v') # ms) =
     (if k' = k then (k, v) # ms else (k', v') # set_member k v ms)"

text \<open>
  The recogniser reads one token at a time. Its stack holds the arrays and objects that
  are still open (and, above an object, the key whose value is being read); \<open>expect\<close>
  says what the grammar allows next. \<open>complete v\<close> hands a finished value to the
  innermost open container, or finishes the parse when none is open.
\<close>

datatype frame =
    ArrayFrame "json list"
  | ObjectFrame "(jsstring \<times> json) list"
  | KeyFrame jsstring

datatype expect =
    ExpValue
  | ExpValueOrClose
  | ExpKeyOrClose
  | ExpKey
  | ExpColon
  | ExpCommaOrClose
  | Finished json

type_synonym config = "expect \<times> frame list"

fun complete :: "json \<Rightarrow> frame list \<Rightarrow> config option" where
  "complete v [] = Some (Finished v, [])"
| "complete v (ArrayFrame vs # st) = Some (ExpCommaOrClose, ArrayFrame (vs @ [v]) # st)"
| "complete v (KeyFrame k # ObjectFrame ms # st) =
     Some (ExpCommaOrClose, ObjectFrame (set_member k v ms) # st)"
| "complete v _ = None"

fun begin_value :: "token \<Rightarrow> frame list \<Rightarrow> config option" where
  "begin_value LBrace st = Some (ExpKeyOrClose, ObjectFrame [] # st)"
| "begin_value LBracket st = Some (ExpValueOrClose, ArrayFrame [] # st)"
| "begin_value (TString s) st = complete (JStr s) st"
| "begin_value (TNumber n) st = complete (JNum n) st"
| "begin_value TTrue st = complete (JBool True) st"
| "begin_value TFalse st = complete (JBool False) st"
| "begin_value TNull st = complete JNull st"
| "begin_value _ st = None"

fun close_array :: "frame list \<Rightarrow> config option" where
  "close_array (ArrayFrame vs # st) = complete (JArr vs) st"
| "close_array _ = None"

fun close_object :: "frame list \<Rightarrow> config option" where
  "close_object (ObjectFrame ms # st) = complete (JObj ms) st"
| "close_object _ = None"

fun read_key :: "token \<Rightarrow> frame list \<Rightarrow> config option" where
  "read_key (TString k) st = Some (ExpColon, KeyFrame k # st)"
| "read_key _ st = None"

fun after_comma :: "frame list \<Rightarrow> config option" where
  "after_comma (ArrayFrame vs # st) = Some (ExpValue, ArrayFrame vs # st)"
| "after_comma (ObjectFrame ms # st) = Some (ExpKey, ObjectFrame ms # st)"
| "after_comma _ = None"

fun step :: "config \<Rightarrow> token \<Rightarrow> config option" where
  "step (ExpValue, st) t = begin_value t st"
| "step (ExpValueOrClose, st) t = (if t = RBracket then close_array st else begin_value t st)"
| "step (ExpKeyOrClose, st) t = (if t = RBrace then close_object st else read_key t st)"
| "step (ExpKey, st) t = read_key t st"
| "step (ExpColon, st) t = (if t = Colon then Some (ExpValue, st) else None)"
| "step (ExpCommaOrClose, st) t =
     (if t = Comma then after_comma st
      else if t = RBracket then close_array st
      else if t = RBrace then close_object st
      else None)"
| "step (Finished v, st) t = None"

fun run :: "config \<Rightarrow> token list \<Rightarrow> config option" where
  "run cfg [] = Some cfg"
| "run cfg (t # ts) = (case step cfg t of None \<Rightarrow> None | Some cfg' \<Rightarrow> run cfg' ts)"

definition parse_tokens :: "token list \<Rightarrow> json option" where
  "parse_tokens ts =
     (case run (ExpValue, []) ts of
        Some (Finished v, st) \<Rightarrow> Some v
      | _ \<Rightarrow> None)"

definition JSON_parse :: "jsstring \<Rightarrow> json option" where
  "JSON_parse s = (case tokenize s of None \<Rightarrow> None | Some ts \<Rightarrow> parse_tokens ts)"

section \<open>String methods and regular expressions\<close>

text \<open>
  \<open>is_space\<close> is the class \<^verbatim>\<open>\s\<close> of a regular expression, which is also what
  \<^verbatim>\<open>trim\<close> strips: the white space and the line terminators of ECMAScript.
  \<open>is_word\<close> is the class \<^verbatim>\<open>[a-zA-Z0-9_]\<close>.
\<close>

definition is_space :: "code_unit \<Rightarrow> bool" where
  "is_space c =
     (c = 9 \<or> c = 10 \<or> c = 11 \<or> c = 12 \<or> c = 13 \<or> c = 32 \<or> c = 160 \<or> c = 5760 \<or>
      (8192 \<le> c \<and> c \<le> 8202) \<or> c = 8232 \<or> c = 8233 \<or> c = 8239 \<or> c = 8287 \<or>
      c = 12288 \<or> c = 65279)"

definition is_word :: "code_unit \<Rightarrow> bool" where
  "is_word c = ((97 \<le> c \<and> c \<le> 122) \<or> (65 \<le> c \<and> c \<le> 90) \<or> (48 \<le> c \<and> c \<le> 57) \<or> c = 95)"

definition trim :: "jsstring \<Rightarrow> jsstring" where
  "trim s = rev (dropWhile is_space (rev (dropWhile is_space s)))"

text \<open>
  \<^verbatim>\<open>s.replace(re, r)\<close> for a global regular expression that looks only at the text
  from the position it is tried at, and never matches the empty string. The matcher \<open>m\<close>
  gives, for the text from a position on, the replacement and the length of the match
  there. The search goes from left to right and resumes after each match.
\<close>

fun replace_all :: "(jsstring \<Rightarrow> (jsstring \<times> nat) option) \<Rightarrow> jsstring \<Rightarrow> jsstring" where
  "replace_all m [] = []"
| "replace_all m (c # cs) =
     (case m (c # cs) of
        None \<Rightarrow> c # replace_all m cs
      | Some (replacement, n) \<Rightarrow> replacement @ replace_all m (drop (n - 1) cs))"

text \<open>
  The matchers of the five regular expressions of \<^verbatim>\<open>sendMessageToGemini\<close>:
  \<^verbatim>\<open>/```json/gi\<close>, \<^verbatim>\<open>/```/g\<close>, \<^verbatim>\<open>/,(\s*[}\]])/g\<close> replaced by \<^verbatim>\<open>$1\<close>,
  \<^verbatim>\<open>/([{,]\s*)([a-zA-Z0-9_]+?)\s*:/g\<close> replaced by \<^verbatim>\<open>$1"$2":\<close>, and
  \<^verbatim>\<open>/([}\]])\s*(?=")/g\<close> replaced by \<^verbatim>\<open>$1,\<close>. In each of them a run of \<^verbatim>\<open>\s*\<close>
  or of word characters is followed by a character outside the run's class, so the only
  match at a position takes the whole run. In \<open>starts_with_ci\<close> the pattern is in lower
  case and a letter of the text may be in either case.
\<close>

fun starts_with_ci :: "jsstring \<Rightarrow> jsstring \<Rightarrow> bool" where
  "starts_with_ci s [] = True"
| "starts_with_ci [] (p # ps) = False"
| "starts_with_ci (c # cs) (p # ps) =
     ((c = p \<or> (97 \<le> p \<and> p \<le> 122 \<and> c + 32 = p)) \<and> starts_with_ci cs ps)"

definition json_fence :: "jsstring \<Rightarrow> (jsstring \<times> nat) option" where
  "json_fence s = (if starts_with_ci s (lit ''```json'') then Some ([], 7) else None)"

definition fence :: "jsstring \<Rightarrow> (jsstring \<times> nat) option" where
  "fence s = (if starts_with s (lit ''```'') then Some ([], 3) else None)"

definition trailing_comma :: "jsstring \<Rightarrow> (jsstring \<times> nat) option" where
  "trailing_comma s =
     (case s of
        [] \<Rightarrow> None
      | c # r \<Rightarrow>
          if c = 44 then
            (let w = takeWhile is_space r in
             case dropWhile is_space r of
               [] \<Rightarrow> None
             | b # r' \<Rightarrow> if b = 125 \<or> b = 93 then Some (w @ [b], length w + 2) else None)
          else None)"

definition unquoted_key :: "jsstring \<Rightarrow> (jsstring \<times> nat) option" where
  "unquoted_key s =
     (case s of
        [] \<Rightarrow> None
      | c # r \<Rightarrow>
          if c = 123 \<or> c = 44 then
            (let w = takeWhile is_space r;
                 r1 = dropWhile is_space r;
                 k = takeWhile is_word r1;
                 r2 = dropWhile is_word r1;
                 w2 = takeWhile is_space r2
             in if k = [] then None
                else (case dropWhile is_space r2 of
                        [] \<Rightarrow> None
                      | d # r3 \<Rightarrow>
                          if d = 58
                          then Some (c # w @ [34] @ k @ [34, 58],
                                     length w + length k + length w2 + 2)
                          else None))
          else None)"

definition missing_comma :: "jsstring \<Rightarrow> (jsstring \<times> nat) option" where
  "missing_comma s =
     (case s of
        [] \<Rightarrow> None
      | c # r \<Rightarrow>
          if c = 125 \<or> c = 93 then
            (let w = takeWhile is_space r in
             case dropWhile is_space r of
               [] \<Rightarrow> None
             | q # r' \<Rightarrow> if q = 34 then Some ([c, 44], length w + 1) else None)
          else None)"

text \<open>
  \<^verbatim>\<open>repaired.match(/"designUpdate"\s*:\s*\[/)\<close>: the index of the first match and its
  length.
\<close>

definition designUpdate_at :: "jsstring \<Rightarrow> nat option" where
  \<open>designUpdate_at s =
     (if starts_with s (lit ''"designUpdate"'') then
        (let r = drop 14 s; w1 = takeWhile is_space r in
         case dropWhile is_space r of
           [] \<Rightarrow> None
         | c # r1 \<Rightarrow>
             if c = 58 then
               (let w2 = takeWhile is_space r1 in
                case dropWhile is_space r1 of
                  [] \<Rightarrow> None
                | b # r2 \<Rightarrow> if b = 91 then Some (length w1 + length w2 + 16) else None)
             else None)
      else None)\<close>

fun match_designUpdate :: "jsstring \<Rightarrow> (nat \<times> nat) option" where
  "match_designUpdate [] = None"
| "match_designUpdate (c # cs) =
     (case designUpdate_at (c # cs) of
        Some n \<Rightarrow> Some (0, n)
      | None \<Rightarrow> (case match_designUpdate cs of None \<Rightarrow> None | Some (i, n) \<Rightarrow> Some (Suc i, n)))"

text \<open>
  \<^verbatim>\<open>lastIndexOf\<close> is \<open>-1\<close> when the code unit does not occur; \<open>substring0 s e\<close> is
  \<^verbatim>\<open>s.substring(0, e)\<close>; \<open>js_includes\<close> is \<^verbatim>\<open>String.prototype.includes\<close>.
\<close>

definition lastIndexOf :: "code_unit \<Rightarrow> jsstring \<Rightarrow> int" where
  "lastIndexOf c s =
     (case dropWhile (\<lambda>x. x \<noteq> c) (rev s) of
        [] \<Rightarrow> - 1
      | x # pre \<Rightarrow> int (length pre))"

definition substring0 :: "jsstring \<Rightarrow> int \<Rightarrow> jsstring" where
  "substring0 s e = take (nat e) s"

fun js_includes :: "jsstring \<Rightarrow> jsstring \<Rightarrow> bool" where
  "js_includes [] pat = (pat = [])"
| "js_includes (c # cs) pat = (starts_with (c # cs) pat \<or> js_includes cs pat)"

section \<open>Truthiness\<close>

text \<open>
  \<^verbatim>\<open>!result.text\<close> holds when the property is missing, \<^verbatim>\<open>null\<close>, \<^verbatim>\<open>false\<close>, the
  empty string, or a number that is zero as a double. A literal denotes the double zero
  when its digits are all zero or its value is at most \<open>2\<^sup>-\<^sup>1\<^sup>0\<^sup>7\<^sup>5\<close>, half of the least
  positive double.
\<close>

fun digits_value :: "jsstring \<Rightarrow> nat \<Rightarrow> nat" where
  "digits_value [] acc = acc"
| "digits_value (d # ds) acc = digits_value ds (10 * acc + (d - 48))"

definition number_is_zero :: "jsstring \<Rightarrow> bool" where
  "number_is_zero n =
     (let u = (case n of c # cs \<Rightarrow> if c = 45 then cs else n | [] \<Rightarrow> n);
          ip = takeWhile is_digit u;
          r1 = dropWhile is_digit u;
          fp = (case r1 of c # cs \<Rightarrow> if c = 46 then takeWhile is_digit cs else [] | [] \<Rightarrow> []);
          r2 = (case r1 of c # cs \<Rightarrow> if c = 46 then dropWhile is_digit cs else r1 | [] \<Rightarrow> r1);
          ex = (case r2 of
                  [] \<Rightarrow> 0
                | e # cs \<Rightarrow>
                    (case cs of
                       [] \<Rightarrow> 0
                     | s # ds \<Rightarrow>
                         if s = 45 then - int (digits_value ds 0)
                         else if s = 43 then int (digits_value ds 0)
                         else int (digits_value cs 0)));
          m = digits_value (ip @ fp) 0;
          e10 = ex - int (length fp)
      in m = 0 \<or> (e10 < 0 \<and> m * 2 ^ 1075 \<le> 10 ^ nat (- e10)))"

fun falsy :: "json option \<Rightarrow> bool" where
  "falsy None = True"
| "falsy (Some JNull) = True"
| "falsy (Some (JBool b)) = (\<not> b)"
| "falsy (Some (JNum n)) = number_is_zero n"
| "falsy (Some (JStr s)) = (s = [])"
| "falsy (Some (JArr vs)) = False"
| "falsy (Some (JObj ms)) = False"

section \<open>\<^verbatim>\<open>sendMessageToGemini\<close> (the service, in src/components/ChatPanel.tsx)\<close>

text \<open>
  The three repairs of the response text, in the order of the source (lines 386 to 455).
  \<open>cleanup\<close> is step 1, \<open>syntax_repair\<close> step 2 and \<open>truncation_repair\<close> step 3, which
  is \<open>None\<close> when its \<^verbatim>\<open>try\<close> block does not return: no match, no closing brace after
  the opening bracket, or a \<^verbatim>\<open>SyntaxError\<close> from the last parse. The text it parses ends
  with a closing brace, so a parse that succeeds yields an object (lemma
  \<open>parse_closing_brace\<close>).
\<close>

definition cleanup :: "jsstring \<Rightarrow> jsstring" where
  "cleanup jsonText = trim (replace_all fence (replace_all json_fence jsonText))"

definition syntax_repair :: "jsstring \<Rightarrow> jsstring" where
  "syntax_repair jsonText =
     replace_all missing_comma (replace_all unquoted_key (replace_all trailing_comma jsonText))"

definition truncation_note :: jsstring where
  "truncation_note =
     lit ''Note: The design generation was partially truncated, but I recovered the geometry.''"

definition truncation_repair :: "jsstring \<Rightarrow> json option" where
  "truncation_repair repaired =
     (case match_designUpdate repaired of
        None \<Rightarrow> None
      | Some (index, len) \<Rightarrow>
          (let startIdx = index + len;
               lastObjectEnd = lastIndexOf 125 repaired
           in if lastObjectEnd > int startIdx then
                (let truncatedFixed = substring0 repaired (lastObjectEnd + 1) @ lit '']}''
                 in case JSON_parse truncatedFixed of
                      Some (JObj ms) \<Rightarrow>
                        Some (JObj (if falsy (get_member (lit ''text'') ms)
                                    then set_member (lit ''text'') (JStr truncation_note) ms
                                    else ms))
                    | _ \<Rightarrow> None)
              else None))"

definition fallback_text :: jsstring where
  "fallback_text =
     lit ''I generated a design, but there was a technical error processing the response structure (JSON Syntax Error). Please try again or ask for a smaller update.''"

definition fallback :: json where
  "fallback = JObj [(lit ''text'', JStr fallback_text), (lit ''designUpdate'', JArr [])]"

definition parse_response :: "jsstring \<Rightarrow> json" where
  "parse_response jsonText =
     (case JSON_parse (cleanup jsonText) of
        Some v \<Rightarrow> v
      | None \<Rightarrow>
          (let repaired = syntax_repair (cleanup jsonText) in
           case JSON_parse repaired of
             Some v \<Rightarrow> v
           | None \<Rightarrow>
               (case truncation_repair repaired of
                  Some v \<Rightarrow> v
                | None \<Rightarrow> fallback)))"

text \<open>
  The \<^verbatim>\<open>catch\<close> of the whole function returns an object with the single property
  \<^verbatim>\<open>text\<close>, built around the message of the error.
\<close>

definition error_text :: "jsstring \<Rightarrow> jsstring" where
  "error_text message =
     lit ''I encountered an error processing the design. The model response might have been too large or complex. ''
     @ [10, 10] @ lit ''Technical Error: '' @ message @ [10, 10]
     @ lit ''Try asking for a smaller update.''"

definition error_response :: "jsstring \<Rightarrow> json" where
  "error_response message = JObj [(lit ''text'', JStr (error_text message))]"

text \<open>
  What can throw inside the outer \<^verbatim>\<open>try\<close> is a value \<open>Inl message\<close>:
  \<^verbatim>\<open>getClient\<close> without an API key, the call of the model (whose outcome is the
  argument \<open>generateContent\<close>: rejected with a message, or a response whose \<^verbatim>\<open>text\<close>
  may be undefined), and the guard \<^verbatim>\<open>if (!jsonText) throw\<close>. A rejection is taken to
  carry an error object, whose message is the argument of \<open>Rejected\<close>. The prompt, the
  shapes and the history only go into the request and are not arguments of the model.
\<close>

definition getClient :: "jsstring option \<Rightarrow> jsstring + unit" where
  "getClient apiKey =
     (if apiKey = None \<or> apiKey = Some []
      then Inl (lit ''API_KEY is not set in environment variables'')
      else Inr ())"

datatype generated = Rejected jsstring | Response "jsstring option"

definition read_response :: "jsstring option \<Rightarrow> jsstring + json" where
  "read_response response_text =
     (case response_text of
        None \<Rightarrow> Inl (lit ''No response from Gemini'')
      | Some jsonText \<Rightarrow>
          if jsonText = [] then Inl (lit ''No response from Gemini'')
          else Inr (parse_response jsonText))"

definition sendMessageToGemini :: "jsstring option \<Rightarrow> generated \<Rightarrow> json" where
  "sendMessageToGemini apiKey generateContent =
     (case (case getClient apiKey of
              Inl message \<Rightarrow> Inl message
            | Inr ai \<Rightarrow>
                (case generateContent of
                   Rejected message \<Rightarrow> Inl message
                 | Response response_text \<Rightarrow> read_response response_text)) of
        Inl message \<Rightarrow> error_response message
      | Inr response \<Rightarrow> response)"

section \<open>Reading a parsed value at the type \<^verbatim>\<open>GeminiResponse\<close>\<close>

text \<open>
  \<^verbatim>\<open>JSON.parse(...) as GeminiResponse\<close> is an unchecked cast. \<open>asGeminiResponse\<close> is
  the value at the declared type when the parsed value has that type, and \<open>None\<close>
  otherwise; it links what \<open>sendMessageToGemini\<close> returns to the typed response that
  \<open>handleSendMessage\<close> reads. How a JSON object is read as a \<^verbatim>\<open>Shape\<close> is the parameter
  \<open>asShape\<close>.
\<close>

fun as_optional :: "(json \<Rightarrow> 'a option) \<Rightarrow> json option \<Rightarrow> 'a option option" where
  "as_optional rd None = Some None"
| "as_optional rd (Some v) = map_option Some (rd v)"

fun as_string :: "json \<Rightarrow> jsstring option" where
  "as_string (JStr s) = Some s"
| "as_string _ = None"

fun as_boolean :: "json \<Rightarrow> bool option" where
  "as_boolean (JBool b) = Some b"
| "as_boolean _ = None"

fun as_array :: "(json \<Rightarrow> 'a option) \<Rightarrow> json \<Rightarrow> 'a list option" where
  "as_array rd (JArr vs) = those (map rd vs)"
| "as_array rd _ = None"

fun as_MaterialInfo :: "json \<Rightarrow> MaterialInfo option" where
  "as_MaterialInfo (JObj ms) =
     (case (as_optional as_string (get_member (lit ''color'') ms),
            as_optional as_string (get_member (lit ''name'') ms),
            as_optional as_string (get_member (lit ''description'') ms)) of
        (Some (Some c), Some (Some n), Some d) \<Rightarrow>
          Some \<lparr>mi_color = c, mi_name = n, mi_description = d\<rparr>
      | _ \<Rightarrow> None)"
| "as_MaterialInfo _ = None"

fun asGeminiResponse :: "(json \<Rightarrow> 'n Shape option) \<Rightarrow> json \<Rightarrow> 'n GeminiResponse option" where
  "asGeminiResponse asShape (JObj ms) =
     (case (as_optional as_string (get_member (lit ''text'') ms),
            as_optional (as_array asShape) (get_member (lit ''designUpdate'') ms),
            as_optional as_boolean (get_member (lit ''isExplanation'') ms),
            as_optional as_boolean (get_member (lit ''isReview'') ms),
            as_optional (as_array as_MaterialInfo) (get_member (lit ''materialLegend'') ms)) of
        (Some (Some t), Some du, Some ie, Some ir, Some ml) \<Rightarrow>
          Some \<lparr>text = t, designUpdate = du, isExplanation = ie, isReview = ir,
                materialLegend = ml\<rparr>
      | _ \<Rightarrow> None)"
| "asGeminiResponse asShape _ = None"

section \<open>Notions used in the proofs\<close>

text \<open>
  \<open>keep_rest c\<close> appends the code unit \<open>c\<close> to the text that a scanner leaves;
  \<open>number_end c\<close> says that \<open>c\<close> cannot occur in a number literal.
\<close>

definition keep_rest :: "code_unit \<Rightarrow> ('a \<times> jsstring) option \<Rightarrow> ('a \<times> jsstring) option" where
  "keep_rest c res = (case res of None \<Rightarrow> None | Some (n, r) \<Rightarrow> Some (n, r @ [c]))"

definition number_end :: "code_unit \<Rightarrow> bool" where
  "number_end c = (\<not> is_digit c \<and> c \<noteq> 46 \<and> c \<noteq> 101 \<and> c \<noteq> 69 \<and> c \<noteq> 43 \<and> c \<noteq> 45)"

text \<open>
  \<open>answers_current op st\<close> says that the operation \<open>op\<close>, arriving on the scene \<open>st\<close>, pushes
  the current shapes: it is a handler called by an event, or the response to a message
  that was sent on the shapes of \<open>st\<close>. \<open>no_edit_in_flight ops st\<close> says so of every
  operation of a sequence that starts on \<open>st\<close>: no response arrives on a scene that was
  edited after its message was sent.
\<close>

fun answers_current :: "'n operation \<Rightarrow> 'n Scene \<Rightarrow> bool" where
  "answers_current (ReplaceShapes captured r) st = (captured = shapes st)"
| "answers_current _ st = True"

fun no_edit_in_flight :: "'n operation list \<Rightarrow> 'n Scene \<Rightarrow> bool" where
  "no_edit_in_flight [] st = True"
| "no_edit_in_flight (op # ops) st = (answers_current op st \<and> no_edit_in_flight ops (perform op st))"

section \<open>Properties of the scene operations\<close>

subsection \<open>Auxiliary facts\<close>

lemma updateMap_fold:
  "fold (\<lambda>s m. m(id' s \<mapsto> s)) ps m k =
     (case find (\<lambda>p. id' p = k) (rev ps) of Some p \<Rightarrow> Some p | None \<Rightarrow> m k)"
  by (induction ps arbitrary: m rule: rev_induct) auto

lemma updateMap_find: "updateMap ps k = find (\<lambda>p. id' p = k) (rev ps)"
  by (simp add: updateMap_def updateMap_fold split: option.splits)

lemma find_id: "find (\<lambda>p. id' p = k) xs = Some p \<Longrightarrow> id' p = k"
  by (induction xs) (auto split: if_splits)

lemma find_filter_irrelevant:
  "k \<in> S \<Longrightarrow> find (\<lambda>p. id' p = k) (filter (\<lambda>p. id' p \<in> S) xs) = find (\<lambda>p. id' p = k) xs"
  by (induction xs) auto

lemma undo_iter:
  "pastStates st = p @ h \<Longrightarrow>
   (undo ^^ length h) st =
     st\<lparr>futureStates := tl (h @ [shapes st]) @ futureStates st,
        pastStates := p,
        shapes := hd (h @ [shapes st])\<rparr>"
proof (induction h arbitrary: st rule: rev_induct)
  case Nil
  then show ?case by simp
next
  case (snoc x h)
  let ?st1 = "undo st"
  have u: "?st1 = st\<lparr>futureStates := shapes st # futureStates st, pastStates := p @ h, shapes := x\<rparr>"
    using snoc.prems by (simp add: undo_def Let_def butlast_append)
  have "(undo ^^ length (h @ [x])) st = (undo ^^ length h) ?st1"
    by (simp add: funpow_swap1)
  also have "\<dots> = ?st1\<lparr>futureStates := tl (h @ [shapes ?st1]) @ futureStates ?st1,
        pastStates := p, shapes := hd (h @ [shapes ?st1])\<rparr>"
    by (rule snoc.IH) (simp add: u)
  finally show ?case
    by (cases h) (simp_all add: u)
qed

lemma undo_idle: "pastStates st = [] \<Longrightarrow> (undo ^^ n) st = st"
  by (induction n) (simp_all add: undo_def)

lemma redo_iter:
  "futureStates st = g @ f \<Longrightarrow>
   (redo ^^ length g) st =
     st\<lparr>pastStates := pastStates st @ butlast (shapes st # g),
        futureStates := f,
        shapes := last (shapes st # g)\<rparr>"
proof (induction g arbitrary: st)
  case Nil
  then show ?case by simp
next
  case (Cons x g)
  let ?st1 = "redo st"
  have u: "?st1 = st\<lparr>pastStates := pastStates st @ [shapes st], futureStates := g @ f, shapes := x\<rparr>"
    using Cons.prems by (simp add: redo_def Let_def)
  have "(redo ^^ length (x # g)) st = (redo ^^ length g) ?st1"
    by (simp add: funpow_swap1)
  also have "\<dots> = ?st1\<lparr>pastStates := pastStates ?st1 @ butlast (shapes ?st1 # g),
        futureStates := f, shapes := last (shapes ?st1 # g)\<rparr>"
    by (rule Cons.IH) (simp add: u)
  finally show ?case
    by (simp add: u)
qed

lemma redo_idle: "futureStates st = [] \<Longrightarrow> (redo ^^ n) st = st"
  by (induction n) (simp_all add: redo_def)

lemma perform_cases:
  "(perform op st = st \<and> \<not> takes_effect op) \<or>
   (\<exists>c. pastStates (perform op st) = pastStates st @ [c] \<and>
        (answers_current op st \<longrightarrow> c = shapes st) \<and>
        futureStates (perform op st) = [] \<and> takes_effect op)"
  by (cases op)
     (auto simp: handleAddShape_def handleDeleteShapes_def handleShapeUpdate_def
        handleShapesUpdate_def handleSendMessage_def handleGroup_def handleUngroup_def
        pushToHistory_def Let_def Suc_le_eq split: option.splits)

lemma no_edit_in_flight_snoc:
  "no_edit_in_flight (ops @ [op]) st =
     (no_edit_in_flight ops st \<and> answers_current op (perform_all ops st))"
  by (induction ops arbitrary: st) (simp_all add: perform_all_def)

lemma perform_all_history:
  "no_edit_in_flight ops st \<Longrightarrow>
   \<exists>h. pastStates (perform_all ops st) = pastStates st @ h \<and> length h \<le> length ops \<and>
       (h = [] \<longrightarrow> perform_all ops st = st) \<and>
       (h \<noteq> [] \<longrightarrow> hd h = shapes st \<and> futureStates (perform_all ops st) = []) \<and>
       ((\<forall>op \<in> set ops. takes_effect op) \<longrightarrow> length h = length ops)"
proof (induction ops rule: rev_induct)
  case Nil
  then show ?case by (simp add: perform_all_def)
next
  case (snoc op ops)
  let ?s = "perform_all ops st"
  from snoc.prems have cur: "no_edit_in_flight ops st" "answers_current op ?s"
    by (simp_all add: no_edit_in_flight_snoc)
  from snoc.IH [OF cur(1)]
  obtain h where h: "pastStates ?s = pastStates st @ h" "length h \<le> length ops"
    "h = [] \<longrightarrow> ?s = st"
    "h \<noteq> [] \<longrightarrow> hd h = shapes st \<and> futureStates ?s = []"
    "(\<forall>op \<in> set ops. takes_effect op) \<longrightarrow> length h = length ops" by blast
  have step: "perform_all (ops @ [op]) st = perform op ?s" by (simp add: perform_all_def)
  from perform_cases[of op ?s] show ?case
  proof
    assume a: "perform op ?s = ?s \<and> \<not> takes_effect op"
    show ?thesis
      by (rule exI[of _ h]) (use a h step in auto)
  next
    assume "\<exists>c. pastStates (perform op ?s) = pastStates ?s @ [c] \<and>
        (answers_current op ?s \<longrightarrow> c = shapes ?s) \<and>
        futureStates (perform op ?s) = [] \<and> takes_effect op"
    with cur(2) have a: "pastStates (perform op ?s) = pastStates ?s @ [shapes ?s] \<and>
        futureStates (perform op ?s) = [] \<and> takes_effect op"
      by auto
    show ?thesis
    proof (rule exI[of _ "h @ [shapes ?s]"])
      show "pastStates (perform_all (ops @ [op]) st) = pastStates st @ h @ [shapes ?s] \<and>
    length (h @ [shapes ?s]) \<le> length (ops @ [op]) \<and>
    (h @ [shapes ?s] = [] \<longrightarrow> perform_all (ops @ [op]) st = st) \<and>
    (h @ [shapes ?s] \<noteq> [] \<longrightarrow>
     hd (h @ [shapes ?s]) = shapes st \<and> futureStates (perform_all (ops @ [op]) st) = []) \<and>
    ((\<forall>op\<in>set (ops @ [op]). takes_effect op) \<longrightarrow> length (h @ [shapes ?s]) = length (ops @ [op]))"
        using a h step by (cases h) auto
    qed
  qed
qed

subsection \<open>Undo and redo\<close>

text \<open>
  The history is linear as long as no response arrives on a scene that was edited after
  its message was sent. Start from a scene whose two history stacks are empty (a project
  that has just been opened), or perform only operations that take effect. After the
  operations \<open>op\<^sub>1 \<dots> op\<^sub>N\<close>, calling \<^verbatim>\<open>undo\<close> \<open>N\<close> times gives back the shapes from before
  \<open>op\<^sub>1\<close>, and calling \<^verbatim>\<open>redo\<close> \<open>N\<close> times after that gives back the shapes from after
  \<open>op\<^sub>N\<close>.
\<close>

lemma undo_redo_roundtrip:
  assumes "(pastStates st = [] \<and> futureStates st = []) \<or> (\<forall>op \<in> set ops. takes_effect op)"
    and "no_edit_in_flight ops st"
  shows "shapes ((undo ^^ length ops) (perform_all ops st)) = shapes st \<and>
         shapes ((redo ^^ length ops) ((undo ^^ length ops) (perform_all ops st))) =
           shapes (perform_all ops st)"
proof -
  let ?s = "perform_all ops st"
  obtain h where h: "pastStates ?s = pastStates st @ h" "length h \<le> length ops"
    "h = [] \<longrightarrow> ?s = st"
    "h \<noteq> [] \<longrightarrow> hd h = shapes st \<and> futureStates ?s = []"
    "(\<forall>op \<in> set ops. takes_effect op) \<longrightarrow> length h = length ops"
    using perform_all_history[OF assms(2)] by blast
  define m where "m = length ops - length h"
  have N: "length ops = m + length h" using h(2) by (simp add: m_def)
  let ?u = "(undo ^^ length h) ?s"
  have u: "?u = ?s\<lparr>futureStates := tl (h @ [shapes ?s]) @ futureStates ?s,
        pastStates := pastStates st, shapes := hd (h @ [shapes ?s])\<rparr>"
    by (rule undo_iter) (rule h(1))
  have m0: "m = 0 \<or> (pastStates st = [] \<and> futureStates st = [])"
    using assms(1) h(5) by (auto simp: m_def)
  have U: "(undo ^^ length ops) ?s = ?u"
  proof -
    have "(undo ^^ length ops) ?s = (undo ^^ m) ?u" by (simp add: N funpow_add)
    also have "\<dots> = ?u" using m0
    proof
      assume "m = 0" then show ?thesis by simp
    next
      assume "pastStates st = [] \<and> futureStates st = []"
      then show ?thesis by (intro undo_idle) (simp add: u)
    qed
    finally show ?thesis .
  qed
  have hd_h: "hd (h @ [shapes ?s]) = shapes st"
    using h(3,4) by (cases h) simp_all
  have su: "shapes ?u = shapes st"
    by (subst u) (simp add: hd_h)
  have fu: "futureStates ?u = tl (h @ [shapes ?s]) @ futureStates ?s"
    by (subst u) simp
  let ?r = "(redo ^^ length h) ?u"
  have lt: "length (tl (h @ [shapes ?s])) = length h" by simp
  have r: "?r = ?u\<lparr>pastStates := pastStates ?u @ butlast (shapes ?u # tl (h @ [shapes ?s])),
        futureStates := futureStates ?s, shapes := last (shapes ?u # tl (h @ [shapes ?s]))\<rparr>"
    using redo_iter[OF fu] by (simp only: lt)
  have last_h: "last (shapes st # tl (h @ [shapes ?s])) = shapes ?s"
    using h(3) by (cases h) simp_all
  have sr: "shapes ?r = shapes ?s"
    by (subst r) (simp add: su last_h del: last.simps)
  have fr: "futureStates ?r = futureStates ?s"
    by (subst r) simp
  have R: "(redo ^^ length ops) ?u = ?r"
  proof -
    have "(redo ^^ length ops) ?u = (redo ^^ m) ((redo ^^ length h) ?u)" by (simp add: N funpow_add)
    also have "\<dots> = ?r" using m0
    proof
      assume "m = 0" then show ?thesis by simp
    next
      assume e: "pastStates st = [] \<and> futureStates st = []"
      have "futureStates ?s = []" using h(3,4) e by (cases "h = []") auto
      then show ?thesis by (intro redo_idle) (simp add: fr)
    qed
    finally show ?thesis .
  qed
  show ?thesis using U R su sr by simp
qed

text \<open>
  An instance: a shape is added to the empty scene, then a response arrives to a message
  that was sent on the scene with that shape.
\<close>

lemma undo_redo_roundtrip_example:
  "shapes ((undo ^^ 2)
      (perform_all [AddShape (example_shape (lit ''s1'') None),
                    ReplaceShapes [example_shape (lit ''s1'') None]
                      (example_response (Some [example_shape (lit ''s3'') None]))]
         (example_scene []))) = [] \<and>
   shapes ((redo ^^ 2) ((undo ^^ 2)
      (perform_all [AddShape (example_shape (lit ''s1'') None),
                    ReplaceShapes [example_shape (lit ''s1'') None]
                      (example_response (Some [example_shape (lit ''s3'') None]))]
         (example_scene [])))) = [example_shape (lit ''s3'') None]"
proof -
  let ?ops = "[AddShape (example_shape (lit ''s1'') None),
               ReplaceShapes [example_shape (lit ''s1'') None]
                 (example_response (Some [example_shape (lit ''s3'') None]))]"
  have hyp: "(pastStates (example_scene []) = [] \<and> futureStates (example_scene []) = []) \<or>
      (\<forall>op \<in> set ?ops. takes_effect op)"
    by simp
  have cur: "no_edit_in_flight ?ops (example_scene [])"
    by (simp add: handleAddShape_def pushToHistory_def)
  have after: "shapes (perform_all ?ops (example_scene [])) = [example_shape (lit ''s3'') None]"
    by (simp add: perform_all_def handleSendMessage_def)
  have len: "length ?ops = 2" by simp
  from undo_redo_roundtrip [OF hyp cur] show ?thesis
    unfolding len after by simp
qed

text \<open>
  Claim C2. For any initial shapes and any sequence of \<open>N\<close> mutating operations, \<open>N\<close> calls
  of \<^verbatim>\<open>undo\<close> are to give back the shapes from before the first operation. They do not
  when the first operation is a response that arrives on an edited scene. The scene has
  the shape \<open>s1\<close> when a message is sent; the shape \<open>s2\<close> is added while the request is in
  flight; the response, whose \<^verbatim>\<open>designUpdate\<close> is the shape \<open>s3\<close>, arrives on the scene
  with \<open>s1\<close> and \<open>s2\<close>. \<^verbatim>\<open>pushToHistory\<close> then pushes the list of the closure, \<open>s1\<close> alone:
  one \<^verbatim>\<open>undo\<close> after the response gives \<open>s1\<close> alone and not the shapes \<open>s1\<close> and \<open>s2\<close> that
  the response replaced, and the list with \<open>s2\<close> is on neither stack.
\<close>

theorem stale_snapshot_after_await:
  "shapes (handleAddShape (example_shape (lit ''s2'') None)
             (example_scene [example_shape (lit ''s1'') None])) =
     [example_shape (lit ''s1'') None, example_shape (lit ''s2'') None] \<and>
   takes_effect (ReplaceShapes [example_shape (lit ''s1'') None]
                   (example_response (Some [example_shape (lit ''s3'') None]))) \<and>
   perform_all [ReplaceShapes [example_shape (lit ''s1'') None]
                  (example_response (Some [example_shape (lit ''s3'') None]))]
      (handleAddShape (example_shape (lit ''s2'') None)
         (example_scene [example_shape (lit ''s1'') None])) =
     \<lparr>shapes = [example_shape (lit ''s3'') None],
      pastStates = [[example_shape (lit ''s1'') None], [example_shape (lit ''s1'') None]],
      futureStates = []\<rparr> \<and>
   (undo ^^ 1)
      (perform_all [ReplaceShapes [example_shape (lit ''s1'') None]
                      (example_response (Some [example_shape (lit ''s3'') None]))]
         (handleAddShape (example_shape (lit ''s2'') None)
            (example_scene [example_shape (lit ''s1'') None]))) =
     \<lparr>shapes = [example_shape (lit ''s1'') None],
      pastStates = [[example_shape (lit ''s1'') None]],
      futureStates = [[example_shape (lit ''s3'') None]]\<rparr> \<and>
   shapes ((undo ^^ 1)
      (perform_all [ReplaceShapes [example_shape (lit ''s1'') None]
                      (example_response (Some [example_shape (lit ''s3'') None]))]
         (handleAddShape (example_shape (lit ''s2'') None)
            (example_scene [example_shape (lit ''s1'') None])))) \<noteq>
     shapes (handleAddShape (example_shape (lit ''s2'') None)
               (example_scene [example_shape (lit ''s1'') None]))"
  by (simp add: perform_all_def handleSendMessage_def handleAddShape_def pushToHistory_def
        undo_def Let_def)

subsection \<open>Model responses\<close>

text \<open>
  Claim C3. A response without \<^verbatim>\<open>designUpdate\<close> leaves the shapes and both history
  stacks as they are. A response whose \<^verbatim>\<open>designUpdate\<close> is the empty array pushes one
  entry onto \<^verbatim>\<open>pastStates\<close> (the list of shapes that the handler captured when the
  message was sent), empties \<^verbatim>\<open>futureStates\<close> and sets the shapes to the empty list. The
  two resulting scenes always differ.
\<close>

theorem designUpdate_absent_or_empty:
  "handleSendMessage captured (r\<lparr>designUpdate := None\<rparr>) st = st \<and>
   handleSendMessage captured (r\<lparr>designUpdate := Some []\<rparr>) st =
     st\<lparr>pastStates := pastStates st @ [captured], futureStates := [], shapes := []\<rparr> \<and>
   length (pastStates (handleSendMessage captured (r\<lparr>designUpdate := Some []\<rparr>) st)) =
     length (pastStates st) + 1 \<and>
   handleSendMessage captured (r\<lparr>designUpdate := None\<rparr>) st \<noteq>
     handleSendMessage captured (r\<lparr>designUpdate := Some []\<rparr>) st"
proof -
  let ?st' = "st\<lparr>pastStates := pastStates st @ [captured], futureStates := [], shapes := []\<rparr>"
  have absent: "handleSendMessage captured (r\<lparr>designUpdate := None\<rparr>) st = st"
    by (simp add: handleSendMessage_def)
  have empty: "handleSendMessage captured (r\<lparr>designUpdate := Some []\<rparr>) st = ?st'"
    by (simp add: handleSendMessage_def pushToHistory_def)
  have "st \<noteq> ?st'"
  proof
    assume "st = ?st'"
    then have "pastStates st = pastStates ?st'" by (rule arg_cong)
    then show False by simp
  qed
  with absent empty show ?thesis by simp
qed

subsection \<open>Redo history\<close>

text \<open>
  Claim C6. Every operation that takes effect (adding, deleting, updating one or several
  shapes, replacing the shapes by a \<^verbatim>\<open>designUpdate\<close>, grouping, ungrouping) leaves
  \<^verbatim>\<open>futureStates\<close> empty.
\<close>

theorem mutation_clears_future:
  "takes_effect op \<Longrightarrow> futureStates (perform op st) = []"
  using perform_cases [of op st] by auto

theorem mutation_clears_future_witness:
  "takes_effect (Group (lit ''17'') [lit ''a'', lit ''b'']) \<and>
   futureStates (perform (Group (lit ''17'') [lit ''a'', lit ''b''])
      \<lparr>shapes = [example_shape (lit ''a'') None, example_shape (lit ''b'') None],
       pastStates = [[]], futureStates = [[example_shape (lit ''c'') None]]\<rparr>) = []"
proof -
  have hyp: "takes_effect (Group (lit ''17'') [lit ''a'', lit ''b''])" by simp
  from hyp mutation_clears_future [OF hyp] show ?thesis by (rule conjI)
qed

subsection \<open>Batch update\<close>

text \<open>
  Claim C9. \<^verbatim>\<open>handleShapesUpdate\<close> keeps the length of the shapes list and the order
  of its ids. A shape whose id occurs among the patches is replaced, in place, by the last
  patch with that id; every other shape stays as it is. Patches whose id belongs to no
  shape of the scene can be dropped from the patch list without changing the result: they
  are never appended.
\<close>

theorem handleShapesUpdate_in_place:
  "length (shapes (handleShapesUpdate ps st)) = length (shapes st) \<and>
   map id' (shapes (handleShapesUpdate ps st)) = map id' (shapes st) \<and>
   shapes (handleShapesUpdate ps st) =
     map (\<lambda>s. case find (\<lambda>p. id' p = id' s) (rev ps) of Some p \<Rightarrow> p | None \<Rightarrow> s) (shapes st) \<and>
   shapes (handleShapesUpdate (filter (\<lambda>p. id' p \<in> set (map id' (shapes st))) ps) st) =
     shapes (handleShapesUpdate ps st)"
proof -
  have a: "shapes (handleShapesUpdate qs st) =
     map (\<lambda>s. case find (\<lambda>p. id' p = id' s) (rev qs) of Some p \<Rightarrow> p | None \<Rightarrow> s) (shapes st)" for qs
    by (simp add: handleShapesUpdate_def pushToHistory_def updateMap_find)
  have b: "map id' (shapes (handleShapesUpdate ps st)) = map id' (shapes st)"
    by (auto simp: a split: option.splits dest: find_id)
  have c: "shapes (handleShapesUpdate (filter (\<lambda>p. id' p \<in> set (map id' (shapes st))) ps) st) =
     shapes (handleShapesUpdate ps st)"
    unfolding a by (rule map_cong) (simp_all add: rev_filter find_filter_irrelevant)
  show ?thesis using a [of ps] b c by simp
qed

subsection \<open>Selection\<close>

text \<open>
  Claim C8, as amended. With the select tool active: a click with the shift key toggles
  the membership of the id in \<^verbatim>\<open>selectedIds\<close>; a click without it on a shape whose
  \<^verbatim>\<open>groupId\<close> is a non-empty string selects exactly the ids of the shapes with that
  \<^verbatim>\<open>groupId\<close>; a click without it on a shape whose \<^verbatim>\<open>groupId\<close> is absent or the
  empty string selects exactly the id of that shape.
\<close>

theorem handleShapeSelect_selection:
  "toolMode v = Select \<Longrightarrow>
   set (selectedIds (handleShapeSelect shps e shape v)) =
     (if shiftKey e then
        (if id' shape \<in> set (selectedIds v) then set (selectedIds v) - {id' shape}
         else insert (id' shape) (set (selectedIds v)))
      else if groupId shape \<noteq> None \<and> groupId shape \<noteq> Some [] then
        id' ` {s \<in> set shps. groupId s = groupId shape}
      else {id' shape})"
  by (auto simp: handleShapeSelect_def has_groupId_def split: option.splits)

theorem handleShapeSelect_selection_witness:
  "toolMode \<lparr>toolMode = Select, selectedIds = [], measurePoints = []\<rparr> = Select \<and>
   set (selectedIds (handleShapeSelect
      [example_shape (lit ''a'') (Some (lit ''g'')), example_shape (lit ''b'') (Some (lit ''g'')),
       example_shape (lit ''c'') (Some (lit ''g'')), example_shape (lit ''d'') None]
      \<lparr>shiftKey = False, point = ()\<rparr> (example_shape (lit ''a'') (Some (lit ''g'')))
      \<lparr>toolMode = Select, selectedIds = [], measurePoints = []\<rparr>)) =
     {lit ''a'', lit ''b'', lit ''c''}"
  using handleShapeSelect_selection [of "\<lparr>toolMode = Select, selectedIds = [], measurePoints = []\<rparr>"
     "[example_shape (lit ''a'') (Some (lit ''g'')), example_shape (lit ''b'') (Some (lit ''g'')),
       example_shape (lit ''c'') (Some (lit ''g'')), example_shape (lit ''d'') None]"
     "\<lparr>shiftKey = False, point = ()\<rparr>" "example_shape (lit ''a'') (Some (lit ''g''))",
     folded set_filter]
  by (simp add: lit_def)

text \<open>
  Claim C8 as stated fails for a \<^verbatim>\<open>groupId\<close> that is the empty string: two shapes share
  it, and a click without the shift key on the first selects the first alone.
\<close>

theorem empty_groupId_counterexample:
  "groupId (example_shape (lit ''a'') (Some [])) = Some [] \<and>
   groupId (example_shape (lit ''b'') (Some [])) = groupId (example_shape (lit ''a'') (Some [])) \<and>
   id' (example_shape (lit ''b'') (Some [])) \<noteq> id' (example_shape (lit ''a'') (Some [])) \<and>
   selectedIds (handleShapeSelect
      [example_shape (lit ''a'') (Some []), example_shape (lit ''b'') (Some [])]
      \<lparr>shiftKey = False, point = ()\<rparr> (example_shape (lit ''a'') (Some []))
      \<lparr>toolMode = Select, selectedIds = [], measurePoints = []\<rparr>) = [lit ''a'']"
  by (simp add: handleShapeSelect_def has_groupId_def lit_def)

section \<open>Properties of the response parser\<close>

subsection \<open>Evaluation and the outer \<^verbatim>\<open>catch\<close>\<close>

lemmas parser_defs = lit_def JSON_parse_def parse_tokens_def is_json_ws_def is_digit_def
  hex_value_def hex4_def unescape_def scanned_def scan_digits_def scan_int_def scan_frac_def
  scan_exp_def scan_number_def Let_def

lemmas response_defs = parse_response_def cleanup_def trim_def json_fence_def fence_def
  syntax_repair_def trailing_comma_def unquoted_key_def missing_comma_def is_space_def
  is_word_def truncation_repair_def designUpdate_at_def lastIndexOf_def substring0_def
  fallback_def fallback_text_def truncation_note_def

lemmas call_defs = sendMessageToGemini_def getClient_def read_response_def
  error_response_def

lemma sendMessageToGemini_parse:
  "apiKey \<noteq> None \<Longrightarrow> apiKey \<noteq> Some [] \<Longrightarrow> raw \<noteq> [] \<Longrightarrow>
   sendMessageToGemini apiKey (Response (Some raw)) = parse_response raw"
  by (cases apiKey) (simp_all add: call_defs)

lemma sendMessageToGemini_cases:
  "(\<exists>m. sendMessageToGemini apiKey g = error_response m) \<or>
   (\<exists>raw. g = Response (Some raw) \<and> raw \<noteq> [] \<and>
      sendMessageToGemini apiKey g = parse_response raw)"
  by (cases g) (auto simp: call_defs split: option.splits)

subsection \<open>The fallback\<close>

text \<open>
  Claim C1, as amended. \<open>sendMessageToGemini\<close> returns a value for every API key and
  every outcome of the call: each \<^verbatim>\<open>throw\<close> of the source is a value that a \<^verbatim>\<open>catch\<close>
  turns into a returned object. When the response text is not empty and the direct parse,
  the parse after syntax repair and the truncation repair all fail, the result is the
  object with the diagnostic text and the empty \<^verbatim>\<open>designUpdate\<close>; the text is not empty
  and names a technical error, a JSON syntax error.
\<close>

theorem all_tiers_fail:
  assumes "apiKey \<noteq> None" and "apiKey \<noteq> Some []" and "raw \<noteq> []"
    and "JSON_parse (cleanup raw) = None"
    and "JSON_parse (syntax_repair (cleanup raw)) = None"
    and "truncation_repair (syntax_repair (cleanup raw)) = None"
  shows "((\<exists>m. sendMessageToGemini apiKey' g = error_response m) \<or>
          (\<exists>raw'. g = Response (Some raw') \<and> raw' \<noteq> [] \<and>
             sendMessageToGemini apiKey' g = parse_response raw')) \<and>
         sendMessageToGemini apiKey (Response (Some raw)) =
           JObj [(lit ''text'', JStr fallback_text), (lit ''designUpdate'', JArr [])] \<and>
         fallback_text \<noteq> [] \<and>
         js_includes fallback_text (lit ''technical error'') \<and>
         js_includes fallback_text (lit ''JSON Syntax Error'')"
proof -
  have "parse_response raw = fallback"
    using assms(4-6) by (simp add: parse_response_def)
  then have "sendMessageToGemini apiKey (Response (Some raw)) =
      JObj [(lit ''text'', JStr fallback_text), (lit ''designUpdate'', JArr [])]"
    using assms(1-3) by (simp add: sendMessageToGemini_parse fallback_def)
  moreover have "fallback_text \<noteq> []"
    by (simp add: fallback_text_def lit_def)
  moreover have "js_includes fallback_text (lit ''technical error'')"
    by (simp add: fallback_text_def lit_def)
  moreover have "js_includes fallback_text (lit ''JSON Syntax Error'')"
    by (simp add: fallback_text_def lit_def)
  ultimately show ?thesis using sendMessageToGemini_cases [of apiKey' g] by simp
qed

theorem all_tiers_fail_witness:
  \<open>Some (lit ''key'') \<noteq> None \<and> Some (lit ''key'') \<noteq> Some [] \<and> lit ''{not json at all'' \<noteq> [] \<and>
   JSON_parse (cleanup (lit ''{not json at all'')) = None \<and>
   JSON_parse (syntax_repair (cleanup (lit ''{not json at all''))) = None \<and>
   truncation_repair (syntax_repair (cleanup (lit ''{not json at all''))) = None \<and>
   ((\<exists>m. sendMessageToGemini None (Rejected (lit ''timeout'')) = error_response m) \<or>
    (\<exists>raw'. Rejected (lit ''timeout'') = Response (Some raw') \<and> raw' \<noteq> [] \<and>
       sendMessageToGemini None (Rejected (lit ''timeout'')) = parse_response raw')) \<and>
   sendMessageToGemini (Some (lit ''key'')) (Response (Some (lit ''{not json at all''))) =
     JObj [(lit ''text'', JStr fallback_text), (lit ''designUpdate'', JArr [])] \<and>
   fallback_text \<noteq> [] \<and>
   js_includes fallback_text (lit ''technical error'') \<and>
   js_includes fallback_text (lit ''JSON Syntax Error'')\<close>
proof -
  have c: "cleanup (lit ''{not json at all'') = lit ''{not json at all''"
    by (simp add: response_defs lit_def)
  have r: "syntax_repair (lit ''{not json at all'') = lit ''{not json at all''"
    by (simp add: response_defs lit_def)
  have h1: "Some (lit ''key'') \<noteq> None" by simp
  have h2: "Some (lit ''key'') \<noteq> Some []" by (simp add: lit_def)
  have h3: "lit ''{not json at all'' \<noteq> []" by (simp add: lit_def)
  have h4: "JSON_parse (cleanup (lit ''{not json at all'')) = None"
    unfolding c by (simp add: parser_defs)
  have h5: "JSON_parse (syntax_repair (cleanup (lit ''{not json at all''))) = None"
    unfolding c r by (simp add: parser_defs)
  have h6: "truncation_repair (syntax_repair (cleanup (lit ''{not json at all''))) = None"
    unfolding c r by (simp add: response_defs lit_def)
  from h1 h2 h3 h4 h5 h6
    all_tiers_fail [OF h1 h2 h3 h4 h5 h6, of None "Rejected (lit ''timeout'')"]
  show ?thesis by blast
qed

text \<open>
  Claim C1 as stated fails for the empty response text. The three tiers fail on it, and
  the function returns the object of the outer \<^verbatim>\<open>catch\<close>, which has no
  \<^verbatim>\<open>designUpdate\<close>: the guard \<^verbatim>\<open>if (!jsonText) throw\<close> comes before the parser.
\<close>

theorem empty_text_not_fallback_counterexample:
  "JSON_parse (cleanup []) = None \<and>
   JSON_parse (syntax_repair (cleanup [])) = None \<and>
   truncation_repair (syntax_repair (cleanup [])) = None \<and>
   sendMessageToGemini (Some (lit ''key'')) (Response (Some [])) =
     JObj [(lit ''text'', JStr (error_text (lit ''No response from Gemini'')))] \<and>
   get_member (lit ''designUpdate'')
     [(lit ''text'', JStr (error_text (lit ''No response from Gemini'')))] = None"
  by (simp add: response_defs parser_defs call_defs)

subsection \<open>The empty response text\<close>

text \<open>
  Claim C7, as amended. For the empty string as response text no parse is attempted: the
  guard throws \<^verbatim>\<open>No response from Gemini\<close> and the function returns the object of the
  outer \<^verbatim>\<open>catch\<close>, whose only property is \<^verbatim>\<open>text\<close>.
\<close>

theorem empty_text_error_response:
  "apiKey \<noteq> None \<Longrightarrow> apiKey \<noteq> Some [] \<Longrightarrow>
   sendMessageToGemini apiKey (Response (Some [])) =
     JObj [(lit ''text'', JStr (error_text (lit ''No response from Gemini'')))]"
  by (cases apiKey) (simp_all add: call_defs)

theorem empty_text_error_response_witness:
  "Some (lit ''key'') \<noteq> None \<and> Some (lit ''key'') \<noteq> Some [] \<and>
   sendMessageToGemini (Some (lit ''key'')) (Response (Some [])) =
     JObj [(lit ''text'', JStr (error_text (lit ''No response from Gemini'')))]"
proof -
  have h1: "Some (lit ''key'') \<noteq> None" by simp
  have h2: "Some (lit ''key'') \<noteq> Some []" by (simp add: lit_def)
  from h1 h2 empty_text_error_response [OF h1 h2] show ?thesis by blast
qed

text \<open>
  Claim C7 as stated fails: the result for the empty string is not the fallback object.
\<close>

theorem empty_text_counterexample:
  "sendMessageToGemini (Some (lit ''key'')) (Response (Some [])) \<noteq> fallback"
  by (simp add: call_defs fallback_def lit_def)

subsection \<open>Errors of the call\<close>

text \<open>
  Claim C10. When the API key is missing or empty, the call of the model is rejected, or
  the response has no text or an empty one, \<open>sendMessageToGemini\<close> returns an object whose
  only property is \<^verbatim>\<open>text\<close>. Read as a \<^verbatim>\<open>GeminiResponse\<close> it has no
  \<^verbatim>\<open>designUpdate\<close>, and \<open>handleSendMessage\<close> leaves the shapes and both history stacks
  as they are, whatever list of shapes it captured.
\<close>

theorem api_error_leaves_scene:
  assumes "apiKey = None \<or> apiKey = Some [] \<or> generateContent = Response None \<or>
           generateContent = Response (Some []) \<or> (\<exists>m. generateContent = Rejected m)"
  shows "\<exists>m r. sendMessageToGemini apiKey generateContent =
                  JObj [(lit ''text'', JStr (error_text m))] \<and>
               asGeminiResponse asShape (sendMessageToGemini apiKey generateContent) = Some r \<and>
               designUpdate r = None \<and>
               handleSendMessage captured r st = st"
proof -
  have "\<exists>m. sendMessageToGemini apiKey generateContent = error_response m"
    using assms by (cases generateContent) (auto simp: call_defs split: option.splits)
  then obtain m where m: "sendMessageToGemini apiKey generateContent =
      JObj [(lit ''text'', JStr (error_text m))]"
    by (auto simp: error_response_def)
  have d: "get_member (lit ''designUpdate'') [(lit ''text'', v)] = None"
          "get_member (lit ''isExplanation'') [(lit ''text'', v)] = None"
          "get_member (lit ''isReview'') [(lit ''text'', v)] = None"
          "get_member (lit ''materialLegend'') [(lit ''text'', v)] = None" for v
    by (simp_all add: lit_def)
  let ?r = "\<lparr>text = error_text m, designUpdate = None, isExplanation = None, isReview = None,
             materialLegend = None\<rparr> :: 'a GeminiResponse"
  have t: "get_member (lit ''text'') [(lit ''text'', v)] = Some v" for v
    by simp
  have "asGeminiResponse asShape (JObj [(lit ''text'', JStr (error_text m))]) = Some ?r"
    by (simp only: asGeminiResponse.simps d t as_optional.simps as_string.simps
          option.map prod.case option.case)
  moreover have "handleSendMessage captured ?r st = st"
    by (simp add: handleSendMessage_def)
  ultimately show ?thesis
    using m by (intro exI [of _ m] exI [of _ ?r]) simp
qed

theorem api_error_leaves_scene_witness:
  "(None = None \<or> None = Some ([] :: jsstring) \<or> Response (Some (lit ''{}'')) = Response None \<or>
      Response (Some (lit ''{}'')) = Response (Some []) \<or>
      (\<exists>m. Response (Some (lit ''{}'')) = Rejected m)) \<and>
   (\<exists>m r. sendMessageToGemini None (Response (Some (lit ''{}''))) =
                  JObj [(lit ''text'', JStr (error_text m))] \<and>
               asGeminiResponse (\<lambda>v. None) (sendMessageToGemini None (Response (Some (lit ''{}'')))) = Some r \<and>
               designUpdate r = None \<and>
               handleSendMessage [] r (example_scene [example_shape (lit ''s1'') None]) =
                 example_scene [example_shape (lit ''s1'') None])"
proof -
  have h: "None = None \<or> None = Some ([] :: jsstring) \<or> Response (Some (lit ''{}'')) = Response None \<or>
      Response (Some (lit ''{}'')) = Response (Some []) \<or>
      (\<exists>m. Response (Some (lit ''{}'')) = Rejected m)" by simp
  from h api_error_leaves_scene [OF h] show ?thesis by blast
qed

subsection \<open>Scanners consume text\<close>

lemma scanned_Some: "scanned u res = Some (s, r) \<Longrightarrow> \<exists>s'. res = Some (s', r)"
  by (auto simp: scanned_def split: option.splits)

lemma scan_string_shorter: "scan_string cs = Some (s, r) \<Longrightarrow> length r < length cs"
proof (induction cs arbitrary: s r rule: scan_string.induct)
  case 1
  then show ?case by simp
next
  case (2 c cs)
  then show ?case
    by (fastforce split: if_splits list.splits option.splits dest!: scanned_Some)
qed

lemma scan_digits_shorter: "scan_digits s = Some (d, r) \<Longrightarrow> length r < length s"
  by (cases s) (auto simp: scan_digits_def split: if_splits intro: le_imp_less_Suc length_dropWhile_le)

lemma scan_digits_le: "scan_digits s = Some (d, r) \<Longrightarrow> length r \<le> length s"
  by (drule scan_digits_shorter) simp

lemma scan_number_shorter: "scan_number s = Some (n, r) \<Longrightarrow> length r < length s"
  by (auto simp: scan_number_def scan_int_def scan_frac_def scan_exp_def Let_def
      split: list.splits if_splits option.splits prod.splits
      dest!: scan_digits_shorter)

subsection \<open>One more character at the end of the text\<close>

text \<open>
  The scanners and the tokenizer read from left to right. A character \<open>c\<close> appended to
  the text, when it cannot continue a token, comes back at the end of what a scanner
  leaves, and adds at most its own token to the tokens of the text.
\<close>

lemma starts_with_append: "starts_with s p \<Longrightarrow> starts_with (s @ t) p"
  by (induction s p rule: starts_with.induct) auto

lemma starts_with_snoc: "c \<notin> set p \<Longrightarrow> starts_with (s @ [c]) p = starts_with s p"
  by (induction s p rule: starts_with.induct) auto

lemma starts_with_length: "starts_with s p \<Longrightarrow> length p \<le> length s"
  by (induction s p rule: starts_with.induct) auto

lemma scanned_eq_Some:
  "scanned u res = Some (s, r) \<longleftrightarrow> (\<exists>s'. res = Some (s', r) \<and> s = u # s')"
  by (auto simp: scanned_def split: option.splits)

lemma scan_string_snoc:
  "scan_string (t @ [c]) = Some (s, r) \<Longrightarrow> c \<noteq> 34 \<Longrightarrow>
   \<exists>r'. r = r' @ [c] \<and> scan_string t = Some (s, r')"
proof (induction t arbitrary: s r rule: scan_string.induct)
  case 1
  then show ?case
    by (auto simp: scanned_eq_Some split: if_splits option.splits)
next
  case (2 c0 cs)
  show ?case
  proof (cases "c0 = 34")
    case True
    with "2.prems" show ?thesis by simp
  next
    case q: False
    show ?thesis
    proof (cases "c0 = 92")
      case False
      with q "2.prems" "2.IH"(3) show ?thesis
        by (auto simp: scanned_eq_Some split: if_splits)
    next
      case b: True
      show ?thesis
      proof (cases cs)
        case Nil
        with b "2.prems" show ?thesis
          by (auto simp: scanned_eq_Some split: if_splits option.splits)
      next
        case (Cons e r0)
        show ?thesis
        proof (cases "e = 117")
          case False
          with b q Cons "2.prems" "2.IH"(2) show ?thesis
            by (auto simp: scanned_eq_Some split: if_splits option.splits)
        next
          case u: True
          show ?thesis
          proof (cases r0)
            case Nil
            with u b q Cons "2.prems" show ?thesis by simp
          next
            case c1: (Cons h1 r1)
            show ?thesis
            proof (cases r1)
              case Nil
              with c1 u b q Cons "2.prems" show ?thesis by simp
            next
              case c2: (Cons h2 r2)
              show ?thesis
              proof (cases r2)
                case Nil
                with c2 c1 u b q Cons "2.prems" show ?thesis by simp
              next
                case c3: (Cons h3 r3)
                show ?thesis
                proof (cases r3)
                  case Nil
                  with c3 c2 c1 u b q Cons "2.prems" show ?thesis
                    by (auto simp: scanned_eq_Some split: option.splits)
                next
                  case c4: (Cons h4 r4)
                  with c3 c2 c1 u b q Cons "2.prems" "2.IH"(1) show ?thesis
                    by (auto simp: scanned_eq_Some split: option.splits)
                qed
              qed
            qed
          qed
        qed
      qed
    qed
  qed
qed

lemma takeWhile_snoc: "\<not> P c \<Longrightarrow> takeWhile P (x @ [c]) = takeWhile P x"
  by (induction x) auto

lemma dropWhile_snoc: "\<not> P c \<Longrightarrow> dropWhile P (x @ [c]) = dropWhile P x @ [c]"
  by (induction x) auto

lemma scan_digits_snoc:
  "\<not> is_digit c \<Longrightarrow> scan_digits (x @ [c]) = keep_rest c (scan_digits x)"
  by (simp add: scan_digits_def keep_rest_def takeWhile_snoc dropWhile_snoc)

lemma not_digit_48: "\<not> is_digit c \<Longrightarrow> c \<noteq> 48"
  by (auto simp: is_digit_def)

lemma scan_int_snoc:
  assumes "\<not> is_digit c"
  shows "scan_int (x @ [c]) = keep_rest c (scan_int x)"
proof (cases x)
  case Nil
  with assms not_digit_48 [OF assms] show ?thesis
    by (simp add: scan_int_def scan_digits_def keep_rest_def)
next
  case (Cons a list)
  with assms scan_digits_snoc [OF assms, of "a # list"] show ?thesis
    by (simp add: scan_int_def keep_rest_def)
qed

lemma scan_frac_snoc:
  assumes "\<not> is_digit c" and "c \<noteq> 46"
  shows "scan_frac (x @ [c]) = keep_rest c (scan_frac x)"
proof (cases x)
  case Nil
  with assms show ?thesis by (simp add: scan_frac_def keep_rest_def)
next
  case (Cons a list)
  with assms scan_digits_snoc [OF assms(1), of list] show ?thesis
    by (auto simp: scan_frac_def keep_rest_def split: option.splits)
qed

lemma scan_exp_snoc:
  assumes "\<not> is_digit c" and "c \<noteq> 101" and "c \<noteq> 69" and "c \<noteq> 43" and "c \<noteq> 45"
  shows "scan_exp (x @ [c]) = keep_rest c (scan_exp x)"
proof (cases x)
  case Nil
  with assms show ?thesis by (simp add: scan_exp_def keep_rest_def)
next
  case (Cons e cs)
  show ?thesis
  proof (cases cs)
    case Nil
    with Cons assms show ?thesis
      by (simp add: scan_exp_def keep_rest_def scan_digits_def)
  next
    case c2: (Cons d ds)
    with Cons assms show ?thesis
      using scan_digits_snoc [OF assms(1), of ds] scan_digits_snoc [OF assms(1), of "d # ds"]
      by (auto simp: scan_exp_def keep_rest_def split: option.splits)
  qed
qed

lemma scan_number_snoc:
  assumes "number_end c"
  shows "scan_number (x @ [c]) = keep_rest c (scan_number x)"
proof -
  from assms have a: "\<not> is_digit c" "c \<noteq> 46" "c \<noteq> 101" "c \<noteq> 69" "c \<noteq> 43" "c \<noteq> 45"
    by (simp_all add: number_end_def)
  have i: "scan_int (y @ [c]) = keep_rest c (scan_int y)" for y
    using a by (simp add: scan_int_snoc)
  have f: "scan_frac (y @ [c]) = keep_rest c (scan_frac y)" for y
    using a by (simp add: scan_frac_snoc)
  have e: "scan_exp (y @ [c]) = keep_rest c (scan_exp y)" for y
    using a by (simp add: scan_exp_snoc)
  show ?thesis
  proof (cases x)
    case Nil
    with a not_digit_48 [OF a(1)] show ?thesis
      by (simp add: scan_number_def scan_int_def scan_digits_def keep_rest_def)
  next
    case (Cons m cs)
    show ?thesis
    proof (cases "m = 45")
      case True
      with Cons show ?thesis
        by (auto simp: scan_number_def i f e keep_rest_def split: option.splits)
    next
      case False
      with Cons i [of "m # cs"] show ?thesis
        by (auto simp: scan_number_def f e keep_rest_def split: option.splits)
    qed
  qed
qed

lemma tokenize_ws: "is_json_ws c \<Longrightarrow> tokenize (c # s) = tokenize s"
  by simp

lemma tokenize_punct:
  "tokenize (123 # s) = map_option ((#) LBrace) (tokenize s)"
  "tokenize (125 # s) = map_option ((#) RBrace) (tokenize s)"
  "tokenize (91 # s) = map_option ((#) LBracket) (tokenize s)"
  "tokenize (93 # s) = map_option ((#) RBracket) (tokenize s)"
  "tokenize (58 # s) = map_option ((#) Colon) (tokenize s)"
  "tokenize (44 # s) = map_option ((#) Comma) (tokenize s)"
  by (simp_all add: is_json_ws_def)

lemma tokenize_string:
  "tokenize (34 # s) =
     (case scan_string s of None \<Rightarrow> None
      | Some (str, r) \<Rightarrow> map_option ((#) (TString str)) (tokenize r))"
  by (simp add: is_json_ws_def)

lemma tokenize_number:
  "c = 45 \<or> is_digit c \<Longrightarrow>
   tokenize (c # s) =
     (case scan_number (c # s) of None \<Rightarrow> None
      | Some (n, r) \<Rightarrow> map_option ((#) (TNumber n)) (tokenize r))"
  by (auto simp: is_json_ws_def is_digit_def)

lemma tokenize_word:
  "\<not> is_json_ws c \<Longrightarrow> c \<notin> {123, 125, 91, 93, 58, 44, 34, 45} \<Longrightarrow> \<not> is_digit c \<Longrightarrow>
   tokenize (c # s) =
     (if starts_with (c # s) (lit ''true'') then map_option ((#) TTrue) (tokenize (drop 3 s))
      else if starts_with (c # s) (lit ''false'') then map_option ((#) TFalse) (tokenize (drop 4 s))
      else if starts_with (c # s) (lit ''null'') then map_option ((#) TNull) (tokenize (drop 3 s))
      else None)"
  by simp

lemma keep_rest_eq_Some:
  "keep_rest c res = Some (n, r) \<longleftrightarrow> (\<exists>r'. res = Some (n, r') \<and> r = r' @ [c])"
  by (auto simp: keep_rest_def split: option.splits)

lemma tokenize_snoc:
  assumes sep: "c = 125 \<or> is_space c"
  shows "tokenize (x @ [c]) = Some ts \<Longrightarrow>
         \<exists>ts'. tokenize x = Some ts' \<and> ts = ts' @ (if c = 125 then [RBrace] else [])"
proof (induction "length x" arbitrary: x ts rule: less_induct)
  case less
  let ?E = "if c = 125 then [RBrace] else []"
  note IH = less.hyps
  from sep have q: "c \<noteq> 34" and ne: "number_end c"
    and lt: "c \<notin> set (lit ''true'')" "c \<notin> set (lit ''false'')" "c \<notin> set (lit ''null'')"
    by (auto simp: is_space_def number_end_def is_digit_def lit_def)
  show ?case
  proof (cases x)
    case Nil
    with less.prems sep show ?thesis
      by (auto simp: is_space_def is_json_ws_def is_digit_def lit_def split: if_splits)
  next
    case (Cons c0 cs)
    with less.prems have t: "tokenize (c0 # (cs @ [c])) = Some ts" by simp
    have tail: "\<exists>ts'. tokenize (c0 # cs) = Some ts' \<and> ts = ts' @ ?E"
      if eq: "\<And>s. tokenize (c0 # s) = map_option ((#) T) (tokenize s)" for T
    proof -
      from t eq obtain ts0 where ts0: "tokenize (cs @ [c]) = Some ts0" "ts = T # ts0"
        by auto
      from IH [of cs ts0] ts0(1) Cons obtain ts1 where "tokenize cs = Some ts1" "ts0 = ts1 @ ?E"
        by auto
      with ts0 eq show ?thesis by simp
    qed
    have rest: "\<exists>ts'. map_option ((#) T) (tokenize r') = Some ts' \<and> ts = ts' @ ?E"
      if "map_option ((#) T) (tokenize (r' @ [c])) = Some ts" "length r' < length x" for T r'
    proof -
      from that(1) obtain ts0 where ts0: "tokenize (r' @ [c]) = Some ts0" "ts = T # ts0"
        by auto
      from IH [OF that(2) ts0(1)] obtain ts1 where "tokenize r' = Some ts1" "ts0 = ts1 @ ?E"
        by auto
      with ts0 show ?thesis by simp
    qed
    consider (ws) "is_json_ws c0"
      | (punct) "c0 \<in> {123, 125, 91, 93, 58, 44}"
      | (str) "c0 = 34"
      | (num) "c0 = 45 \<or> is_digit c0"
      | (word) "\<not> is_json_ws c0" "c0 \<notin> {123, 125, 91, 93, 58, 44, 34, 45}" "\<not> is_digit c0"
      by blast
    then have "\<exists>ts'. tokenize (c0 # cs) = Some ts' \<and> ts = ts' @ ?E"
    proof cases
      case ws
      from t have "tokenize (cs @ [c]) = Some ts" by (simp only: tokenize_ws [OF ws])
      from IH [of cs ts] this Cons show ?thesis by (simp only: tokenize_ws [OF ws]) simp
    next
      case punct
      then show ?thesis
        using tail [of LBrace] tail [of RBrace] tail [of LBracket] tail [of RBracket]
          tail [of Colon] tail [of Comma] tokenize_punct
        by (elim insertE emptyE) (simp_all only:)
    next
      case str
      from t str obtain s r where sr: "scan_string (cs @ [c]) = Some (s, r)"
        and tr: "map_option ((#) (TString s)) (tokenize r) = Some ts"
        by (simp only: tokenize_string) (auto split: option.splits)
      from scan_string_snoc [OF sr q] obtain r' where r': "r = r' @ [c]"
        "scan_string cs = Some (s, r')" by blast
      from scan_string_shorter [OF r'(2)] Cons have "length r' < length x" by simp
      from rest [OF tr [unfolded r'(1)] this] r'(2) str show ?thesis
        by (simp only: tokenize_string) simp
    next
      case num
      from t obtain n r where sr: "scan_number ((c0 # cs) @ [c]) = Some (n, r)"
        and tr: "map_option ((#) (TNumber n)) (tokenize r) = Some ts"
        by (simp only: tokenize_number [OF num]) (auto split: option.splits)
      from sr obtain r' where r': "r = r' @ [c]" "scan_number (c0 # cs) = Some (n, r')"
        unfolding scan_number_snoc [OF ne] keep_rest_eq_Some by blast
      from scan_number_shorter [OF r'(2)] Cons have "length r' < length x" by simp
      from rest [OF tr [unfolded r'(1)] this] r'(2) show ?thesis
        by (simp only: tokenize_number [OF num]) simp
    next
      case word
      note w = tokenize_word [OF word]
      have sw: "starts_with (c0 # cs @ [c]) p = starts_with (c0 # cs) p" if "c \<notin> set p" for p
        using starts_with_snoc [OF that, of "c0 # cs"] by simp
      have dr: "drop n (cs @ [c]) = drop n cs @ [c]"
        if "starts_with (c0 # cs) p" "n < length p" for p n
        using starts_with_length [OF that(1)] that(2) by simp
      have len: "length (drop n cs) < length x" for n using Cons by simp
      show ?thesis
      proof (cases "starts_with (c0 # cs) (lit ''true'')")
        case True
        have d: "drop 3 (cs @ [c]) = drop 3 cs @ [c]"
          by (rule dr [OF True]) (simp add: lit_def)
        from t True have "map_option ((#) TTrue) (tokenize (drop 3 cs @ [c])) = Some ts"
          by (simp only: w sw [OF lt(1)] d if_True)
        from rest [OF this len] True show ?thesis by (simp only: w if_True)
      next
        case nt: False
        show ?thesis
        proof (cases "starts_with (c0 # cs) (lit ''false'')")
          case True
          have d: "drop 4 (cs @ [c]) = drop 4 cs @ [c]"
            by (rule dr [OF True]) (simp add: lit_def)
          from t nt True
          have "map_option ((#) TFalse) (tokenize (drop 4 cs @ [c])) = Some ts"
            by (simp only: w sw [OF lt(1)] sw [OF lt(2)] d if_True if_False)
          from rest [OF this len] nt True show ?thesis by (simp only: w if_True if_False)
        next
          case nf: False
          show ?thesis
          proof (cases "starts_with (c0 # cs) (lit ''null'')")
            case True
            have d: "drop 3 (cs @ [c]) = drop 3 cs @ [c]"
              by (rule dr [OF True]) (simp add: lit_def)
            from t nt nf True
            have "map_option ((#) TNull) (tokenize (drop 3 cs @ [c])) = Some ts"
              by (simp only: w sw [OF lt(1)] sw [OF lt(2)] sw [OF lt(3)] d if_True if_False)
            from rest [OF this len] nt nf True show ?thesis by (simp only: w if_True if_False)
          next
            case False
            from t nt nf False show ?thesis
              by (simp only: w sw [OF lt(1)] sw [OF lt(2)] sw [OF lt(3)] if_False) simp
          qed
        qed
      qed
    qed
    with Cons show ?thesis by simp
  qed
qed

subsection \<open>Well-formed responses\<close>

text \<open>
  Trimming does not change the tokens of a text that has tokens at all, since the white
  space of JSON is part of what \<^verbatim>\<open>trim\<close> strips and every other space character is
  an error for the tokenizer. A text without a code fence is left alone by the two fence
  replacements.
\<close>

lemma tokenize_other_space:
  assumes "is_space c" and "\<not> is_json_ws c"
  shows "tokenize (c # s) = None"
proof -
  from assms have p: "c \<notin> {123, 125, 91, 93, 58, 44, 34, 45}" and d: "\<not> is_digit c"
    and l: "c \<noteq> 116" "c \<noteq> 102" "c \<noteq> 110"
    by (auto simp: is_space_def is_digit_def)
  from l show ?thesis
    unfolding tokenize_word [OF assms(2) p d] by (simp add: lit_def)
qed

lemma tokenize_trimStart:
  "tokenize s = Some ts \<Longrightarrow> tokenize (dropWhile is_space s) = Some ts"
proof (induction s)
  case Nil
  then show ?case by simp
next
  case (Cons c cs)
  show ?case
  proof (cases "is_space c")
    case False
    with Cons.prems show ?thesis by (simp del: tokenize.simps)
  next
    case True
    with Cons.prems tokenize_other_space [OF True, of cs] have ws: "is_json_ws c"
      by (cases "is_json_ws c") simp_all
    with Cons.prems have "tokenize cs = Some ts" by (simp only: tokenize_ws)
    with Cons.IH True show ?thesis by (simp del: tokenize.simps)
  qed
qed

lemma tokenize_trimEnd:
  "tokenize s = Some ts \<Longrightarrow> tokenize (rev (dropWhile is_space (rev s))) = Some ts"
proof (induction s arbitrary: ts rule: rev_induct)
  case Nil
  then show ?case by simp
next
  case (snoc c x)
  show ?case
  proof (cases "is_space c")
    case False
    with snoc.prems show ?thesis by (simp del: tokenize.simps)
  next
    case True
    then have n: "c \<noteq> 125" by (auto simp: is_space_def)
    from tokenize_snoc [OF disjI2 [OF True] snoc.prems] n have "tokenize x = Some ts" by simp
    from snoc.IH [OF this] True show ?thesis by (simp del: tokenize.simps)
  qed
qed

lemma tokenize_trim: "tokenize s = Some ts \<Longrightarrow> tokenize (trim s) = Some ts"
  unfolding trim_def by (intro tokenize_trimEnd tokenize_trimStart)

lemma JSON_parse_trim: "JSON_parse s = Some v \<Longrightarrow> JSON_parse (trim s) = Some v"
  by (auto simp: JSON_parse_def split: option.splits dest: tokenize_trim)

lemma JSON_parse_nonempty: "JSON_parse s = Some v \<Longrightarrow> s \<noteq> []"
  by (auto simp: JSON_parse_def parse_tokens_def)

lemma starts_with_ci_fence:
  "starts_with_ci s (lit ''```json'') \<Longrightarrow> starts_with s (lit ''```'')"
proof -
  assume a: "starts_with_ci s (lit ''```json'')"
  then obtain c1 s1 where s: "s = c1 # s1" by (cases s) (simp_all add: lit_def)
  with a obtain c2 s2 where s1: "s1 = c2 # s2" by (cases s1) (simp_all add: lit_def)
  with a s obtain c3 s3 where s2: "s2 = c3 # s3" by (cases s2) (simp_all add: lit_def)
  with a s s1 show ?thesis by (simp add: lit_def)
qed

lemma no_fence_replace:
  "\<not> js_includes s (lit ''```'') \<Longrightarrow>
   replace_all json_fence s = s \<and> replace_all fence s = s"
proof (induction s)
  case Nil
  then show ?case by simp
next
  case (Cons c cs)
  then have n: "\<not> starts_with (c # cs) (lit ''```'')" and r: "\<not> js_includes cs (lit ''```'')"
    by simp_all
  from n starts_with_ci_fence [of "c # cs"] have "json_fence (c # cs) = None"
    by (auto simp: json_fence_def)
  moreover from n have "fence (c # cs) = None" by (simp add: fence_def)
  ultimately show ?case using Cons.IH [OF r] by simp
qed

lemma cleanup_no_fence: "\<not> js_includes s (lit ''```'') \<Longrightarrow> cleanup s = trim s"
  by (simp add: cleanup_def no_fence_replace)

text \<open>
  Claim C5, as amended. For every response text that is well-formed JSON and contains no
  code fence (three backquotes), the parser returns the direct parse of the text: neither
  the cleanup nor any repair changes the value.
\<close>

theorem well_formed_unchanged:
  assumes "apiKey \<noteq> None" and "apiKey \<noteq> Some []"
    and "JSON_parse raw = Some v" and "\<not> js_includes raw (lit ''```'')"
  shows "sendMessageToGemini apiKey (Response (Some raw)) = v"
proof -
  from assms(3) have ne: "raw \<noteq> []" by (rule JSON_parse_nonempty)
  from assms(3,4) have "JSON_parse (cleanup raw) = Some v"
    by (simp add: cleanup_no_fence JSON_parse_trim)
  then have "parse_response raw = v" by (simp add: parse_response_def)
  with assms(1,2) ne show ?thesis
    by (cases apiKey) (simp_all add: sendMessageToGemini_def getClient_def read_response_def)
qed

theorem well_formed_unchanged_witness:
  \<open>Some (lit ''key'') \<noteq> None \<and> Some (lit ''key'') \<noteq> Some [] \<and>
   JSON_parse (lit '' {"text":"ok","designUpdate":[]} '') =
     Some (JObj [(lit ''text'', JStr (lit ''ok'')), (lit ''designUpdate'', JArr [])]) \<and>
   \<not> js_includes (lit '' {"text":"ok","designUpdate":[]} '') (lit ''```'') \<and>
   sendMessageToGemini (Some (lit ''key'')) (Response (Some (lit '' {"text":"ok","designUpdate":[]} ''))) =
     JObj [(lit ''text'', JStr (lit ''ok'')), (lit ''designUpdate'', JArr [])]\<close>
proof -
  have h1: "Some (lit ''key'') \<noteq> None" by simp
  have h2: "Some (lit ''key'') \<noteq> Some []" by (simp add: lit_def)
  have h3: \<open>JSON_parse (lit '' {"text":"ok","designUpdate":[]} '') =
     Some (JObj [(lit ''text'', JStr (lit ''ok'')), (lit ''designUpdate'', JArr [])])\<close>
    by (simp add: parser_defs)
  have h4: \<open>\<not> js_includes (lit '' {"text":"ok","designUpdate":[]} '') (lit ''```'')\<close>
    by (simp add: lit_def)
  from h1 h2 h3 h4 well_formed_unchanged [OF h1 h2 h3 h4] show ?thesis by blast
qed

text \<open>
  Claim C5 as stated fails for a well-formed response whose text contains a code fence:
  the fence is removed before the first parse, so the result differs from the direct parse.
\<close>

theorem fence_in_text_counterexample:
  \<open>JSON_parse (lit ''{"text":"```"}'') = Some (JObj [(lit ''text'', JStr (lit ''```''))]) \<and>
   sendMessageToGemini (Some (lit ''key'')) (Response (Some (lit ''{"text":"```"}''))) =
     JObj [(lit ''text'', JStr [])]\<close>
  by (simp add: call_defs response_defs parser_defs)

subsection \<open>Truncated responses\<close>

text \<open>
  A text that ends with a closing brace parses to an object or not at all, so the last
  parse of the truncation repair never yields another kind of value. The last closing
  brace of \<open>h @ 125 # d\<close> is at index \<open>length h\<close> when \<open>d\<close> has none.
\<close>

lemma run_snoc:
  "run cfg (ts @ [t]) = (case run cfg ts of None \<Rightarrow> None | Some cfg' \<Rightarrow> step cfg' t)"
  by (induction ts arbitrary: cfg) (auto split: option.splits)

lemma complete_Finished: "complete v' st = Some (Finished v, st') \<Longrightarrow> v = v'"
  by (erule complete.elims) auto

lemma close_object_Finished: "close_object st = Some (Finished v, st') \<Longrightarrow> \<exists>ms. v = JObj ms"
  by (erule close_object.elims) (auto dest: complete_Finished [OF sym])

lemma step_RBrace: "step cfg RBrace = Some (Finished v, st') \<Longrightarrow> \<exists>ms. v = JObj ms"
proof -
  assume a: "step cfg RBrace = Some (Finished v, st')"
  obtain e st where cfg: "cfg = (e, st)" by (cases cfg)
  from a show ?thesis
    unfolding cfg by (cases e) (auto dest: close_object_Finished)
qed

lemma parse_closing_brace:
  assumes "JSON_parse (s @ [125]) = Some v"
  shows "\<exists>ms. v = JObj ms"
proof -
  from assms obtain ts where ts: "tokenize (s @ [125]) = Some ts" "parse_tokens ts = Some v"
    by (auto simp: JSON_parse_def split: option.splits)
  from tokenize_snoc [OF disjI1 [OF refl] ts(1)] obtain ts' where "ts = ts' @ [RBrace]"
    by auto
  with ts(2) obtain cfg st' where "step cfg RBrace = Some (Finished v, st')"
    by (auto simp: parse_tokens_def run_snoc split: option.splits expect.splits)
  then show ?thesis by (rule step_RBrace)
qed

lemma lastIndexOf_last: "c \<notin> set d \<Longrightarrow> lastIndexOf c (h @ c # d) = int (length h)"
proof -
  assume "c \<notin> set d"
  then have "dropWhile (\<lambda>x. x \<noteq> c) (rev d @ c # rev h) = c # rev h"
    by (subst dropWhile_append2) auto
  then show ?thesis by (simp add: lastIndexOf_def)
qed

lemma get_set_member_same: "get_member k (set_member k v ms) = Some v"
  by (induction ms) auto

lemma get_set_member_other: "k' \<noteq> k \<Longrightarrow> get_member k' (set_member k v ms) = get_member k' ms"
  by (induction ms) auto

lemma truncation_repair_Some:
  assumes "125 \<notin> set d"
    and "match_designUpdate (h @ 125 # d) = Some (index, len)"
    and "index + len < length h"
    and "JSON_parse (h @ 125 # lit '']}'') = Some (JObj ms)"
  shows "truncation_repair (h @ 125 # d) =
           Some (JObj (if falsy (get_member (lit ''text'') ms)
                       then set_member (lit ''text'') (JStr truncation_note) ms else ms))"
proof -
  have l: "lastIndexOf 125 (h @ 125 # d) = int (length h)"
    using assms(1) by (rule lastIndexOf_last)
  have s: "substring0 (h @ 125 # d) (int (length h) + 1) @ lit '']}'' = h @ 125 # lit '']}''"
    by (simp add: substring0_def nat_add_distrib)
  show ?thesis
    unfolding truncation_repair_def assms(2) l Let_def s assms(4)
    using assms(3) by simp
qed

text \<open>
  Claim C4, as amended. Let the direct parse and the parse after syntax repair fail, and
  let the repaired text be \<open>h\<close>, a closing brace, and \<open>d\<close>, where \<open>d\<close> has no closing
  brace, the first match of \<^verbatim>\<open>"designUpdate"\s*:\s*\[\<close> ends before that brace, and
  \<open>h\<close> with the brace and \<^verbatim>\<open>]}\<close> is a well-formed object whose \<^verbatim>\<open>designUpdate\<close> is an
  array of \<open>N\<close> values. Then the function returns that object: its \<^verbatim>\<open>designUpdate\<close>
  holds exactly those \<open>N\<close> shapes, and its \<^verbatim>\<open>text\<close> is truthy, hence not empty: the
  original text when that is truthy, the synthesized note otherwise.
\<close>

theorem truncation_recovers_shapes:
  assumes "apiKey \<noteq> None" and "apiKey \<noteq> Some []" and "raw \<noteq> []"
    and "JSON_parse (cleanup raw) = None"
    and "JSON_parse (syntax_repair (cleanup raw)) = None"
    and "syntax_repair (cleanup raw) = h @ 125 # d"
    and "125 \<notin> set d"
    and "match_designUpdate (h @ 125 # d) = Some (index, len)"
    and "index + len < length h"
    and "JSON_parse (h @ 125 # lit '']}'') = Some (JObj ms)"
    and "get_member (lit ''designUpdate'') ms = Some (JArr objects)"
  shows "\<exists>ms'. sendMessageToGemini apiKey (Response (Some raw)) = JObj ms' \<and>
           get_member (lit ''designUpdate'') ms' = Some (JArr objects) \<and>
           \<not> falsy (get_member (lit ''text'') ms') \<and>
           (if falsy (get_member (lit ''text'') ms)
            then get_member (lit ''text'') ms' = Some (JStr truncation_note)
            else ms' = ms)"
proof -
  let ?ms' = "if falsy (get_member (lit ''text'') ms)
              then set_member (lit ''text'') (JStr truncation_note) ms else ms"
  have t: "truncation_repair (syntax_repair (cleanup raw)) = Some (JObj ?ms')"
    unfolding assms(6) using assms(7-10) by (rule truncation_repair_Some)
  have "parse_response raw = JObj ?ms'"
    using assms(4,5) t by (simp add: parse_response_def)
  then have r: "sendMessageToGemini apiKey (Response (Some raw)) = JObj ?ms'"
    using assms(1-3)
    by (cases apiKey) (simp_all add: sendMessageToGemini_def getClient_def read_response_def)
  have k: "lit ''designUpdate'' \<noteq> lit ''text''" by (simp add: lit_def)
  have n: "truncation_note \<noteq> []" by (simp add: truncation_note_def lit_def)
  have d: "get_member (lit ''designUpdate'') ?ms' = Some (JArr objects)"
    using assms(11) k by (simp add: get_set_member_other)
  have f: "\<not> falsy (get_member (lit ''text'') ?ms')"
    using n by (simp add: get_set_member_same)
  have c: "if falsy (get_member (lit ''text'') ms)
           then get_member (lit ''text'') ?ms' = Some (JStr truncation_note) else ?ms' = ms"
    by (simp add: get_set_member_same)
  from r d f c show ?thesis by blast
qed

theorem truncation_recovers_shapes_witness:
  \<open>Some (lit ''key'') \<noteq> None \<and> Some (lit ''key'') \<noteq> Some [] \<and>
   lit ''{"text":"ok","designUpdate":[{"id":"a"},{"id":"b"},{"id":"c"'' \<noteq> [] \<and>
   JSON_parse (cleanup (lit ''{"text":"ok","designUpdate":[{"id":"a"},{"id":"b"},{"id":"c"'')) = None \<and>
   JSON_parse (syntax_repair (cleanup
      (lit ''{"text":"ok","designUpdate":[{"id":"a"},{"id":"b"},{"id":"c"''))) = None \<and>
   syntax_repair (cleanup (lit ''{"text":"ok","designUpdate":[{"id":"a"},{"id":"b"},{"id":"c"'')) =
     lit ''{"text":"ok","designUpdate":[{"id":"a"},{"id":"b"'' @ 125 # lit '',{"id":"c"'' \<and>
   125 \<notin> set (lit '',{"id":"c"'') \<and>
   match_designUpdate (lit ''{"text":"ok","designUpdate":[{"id":"a"},{"id":"b"'' @ 125 # lit '',{"id":"c"'') =
     Some (13, 16) \<and>
   13 + 16 < length (lit ''{"text":"ok","designUpdate":[{"id":"a"},{"id":"b"'') \<and>
   JSON_parse (lit ''{"text":"ok","designUpdate":[{"id":"a"},{"id":"b"'' @ 125 # lit '']}'') =
     Some (JObj [(lit ''text'', JStr (lit ''ok'')),
                 (lit ''designUpdate'',
                  JArr [JObj [(lit ''id'', JStr (lit ''a''))], JObj [(lit ''id'', JStr (lit ''b''))]])]) \<and>
   get_member (lit ''designUpdate'')
     [(lit ''text'', JStr (lit ''ok'')),
      (lit ''designUpdate'',
       JArr [JObj [(lit ''id'', JStr (lit ''a''))], JObj [(lit ''id'', JStr (lit ''b''))]])] =
     Some (JArr [JObj [(lit ''id'', JStr (lit ''a''))], JObj [(lit ''id'', JStr (lit ''b''))]]) \<and>
   sendMessageToGemini (Some (lit ''key''))
      (Response (Some (lit ''{"text":"ok","designUpdate":[{"id":"a"},{"id":"b"},{"id":"c"''))) =
     JObj [(lit ''text'', JStr (lit ''ok'')),
           (lit ''designUpdate'',
            JArr [JObj [(lit ''id'', JStr (lit ''a''))], JObj [(lit ''id'', JStr (lit ''b''))]])]\<close>
proof -
  let ?raw = \<open>lit ''{"text":"ok","designUpdate":[{"id":"a"},{"id":"b"},{"id":"c"''\<close>
  let ?h = \<open>lit ''{"text":"ok","designUpdate":[{"id":"a"},{"id":"b"''\<close>
  let ?d = \<open>lit '',{"id":"c"''\<close>
  let ?objects = "[JObj [(lit ''id'', JStr (lit ''a''))], JObj [(lit ''id'', JStr (lit ''b''))]]"
  let ?ms = "[(lit ''text'', JStr (lit ''ok'')), (lit ''designUpdate'', JArr ?objects)]"
  have c: "cleanup ?raw = ?raw" by (simp add: response_defs lit_def)
  have r: "syntax_repair ?raw = ?raw" by (simp add: response_defs lit_def)
  have h1: "Some (lit ''key'') \<noteq> None" by simp
  have h2: "Some (lit ''key'') \<noteq> Some []" by (simp add: lit_def)
  have h3: "?raw \<noteq> []" by (simp add: lit_def)
  have h4: "JSON_parse (cleanup ?raw) = None" unfolding c by (simp add: parser_defs)
  have h5: "JSON_parse (syntax_repair (cleanup ?raw)) = None" unfolding c r by (simp add: parser_defs)
  have h6: "syntax_repair (cleanup ?raw) = ?h @ 125 # ?d" unfolding c r by (simp add: lit_def)
  have h7: "125 \<notin> set ?d" by (simp add: lit_def)
  have h8: "match_designUpdate (?h @ 125 # ?d) = Some (13, 16)"
    by (simp add: designUpdate_at_def is_space_def lit_def)
  have h9: "13 + 16 < length ?h" by (simp add: lit_def)
  have h10: "JSON_parse (?h @ 125 # lit '']}'') = Some (JObj ?ms)" by (simp add: parser_defs)
  have h11: "get_member (lit ''designUpdate'') ?ms = Some (JArr ?objects)" by (simp add: lit_def)
  have t: "\<not> falsy (get_member (lit ''text'') ?ms)" by (simp add: lit_def)
  from truncation_recovers_shapes [OF h1 h2 h3 h4 h5 h6 h7 h8 h9 h10 h11] t
  have "sendMessageToGemini (Some (lit ''key'')) (Response (Some ?raw)) = JObj ?ms"
    by auto
  with h1 h2 h3 h4 h5 h6 h7 h8 h9 h10 h11 show ?thesis by blast
qed

text \<open>
  Claim C4 as stated fails. In both responses the array is cut after one complete shape;
  closing the text after that shape gives a well-formed response with one shape. In the
  first the partial second shape contains a closing brace inside a string; in the second
  the syntax repair quotes a word of the \<^verbatim>\<open>text\<close> that is followed by a colon. Both
  times the result is the fallback, with no shape.
\<close>

theorem brace_in_partial_shape_counterexample:
  \<open>JSON_parse (lit ''{"text":"ok","designUpdate":[{"id":"a"}]}'') =
     Some (JObj [(lit ''text'', JStr (lit ''ok'')),
                 (lit ''designUpdate'', JArr [JObj [(lit ''id'', JStr (lit ''a''))]])]) \<and>
   parse_response (lit ''{"text":"ok","designUpdate":[{"id":"a"},{"id":"b}'') =
     JObj [(lit ''text'', JStr fallback_text), (lit ''designUpdate'', JArr [])] \<and>
   JSON_parse (lit ''{"text":"Done, note: ok","designUpdate":[{"id":"a"}]}'') =
     Some (JObj [(lit ''text'', JStr (lit ''Done, note: ok'')),
                 (lit ''designUpdate'', JArr [JObj [(lit ''id'', JStr (lit ''a''))]])]) \<and>
   parse_response (lit ''{"text":"Done, note: ok","designUpdate":[{"id":"a"},{"id":"b"'') =
     JObj [(lit ''text'', JStr fallback_text), (lit ''designUpdate'', JArr [])]\<close>
  by (simp add: response_defs parser_defs)

end
